theory Spec2Isabelle
  imports Complex_Main
begin

section \<open>Tabular CVaR Q-learning: the value-function table of q\_learning.py\<close>

text \<open>
  The numbers of the program are numpy floats. They are modelled as real numbers, so
  every statement below is one of exact arithmetic: rounding, infinities and NaN are
  outside the model. Where numpy divides by zero (and produces an infinity or NaN with a
  warning) HOL's division returns 0; the theorems about a function that divides therefore
  assume the divisor nonzero: the atom boundaries after the first in \<open>update\<close>, the atom
  masses in \<open>yc_to_var\<close>, \<open>gamma\<close> in the learning loop.
\<close>

subsection \<open>Errors and numpy indexing\<close>

datatype error = IndexError | ValueError | AssertionError

definition bind_err :: "error + 'a \<Rightarrow> ('a \<Rightarrow> error + 'b) \<Rightarrow> error + 'b" where
  "bind_err m f = (case m of Inl e \<Rightarrow> Inl e | Inr v \<Rightarrow> f v)"

text \<open>An index into an axis of length \<open>n\<close>: negative indices count from the end.\<close>

definition np_index :: "nat \<Rightarrow> int \<Rightarrow> error + nat" where
  "np_index n i =
     (if 0 \<le> i \<and> i < int n then Inr (nat i)
      else if - int n \<le> i \<and> i < 0 then Inr (nat (i + int n))
      else Inl IndexError)"

definition np_get :: "'a list \<Rightarrow> int \<Rightarrow> error + 'a" where
  "np_get xs i = bind_err (np_index (length xs) i) (\<lambda>j. Inr (xs ! j))"

subsection \<open>Module constants\<close>

text \<open>
  \<open>atoms\<close>, \<open>NB_ATOMS\<close>, \<open>gamma\<close>, \<open>beta\<close> and \<open>eps\<close> are module-level constants of the
  program. \<open>atoms\<close> is computed by \<open>util.util.spaced_atoms\<close> and \<open>gamma\<close> is imported from
  \<open>util.constants\<close>; neither is part of the sources at hand, so the constants are
  collected in a configuration that every function takes as a parameter.
\<close>

record config =
  atoms :: "real list"
  NB_ATOMS :: nat
  gamma :: real
  beta :: real
  eps :: real

subsection \<open>MarkovState\<close>

record MarkovState =
  V :: "real list"
  yC :: "real list"

text \<open>\<open>MarkovState.__init__\<close>: both arrays are \<open>np.zeros(NB_ATOMS)\<close>.\<close>

definition MarkovState_init :: "config \<Rightarrow> MarkovState" where
  "MarkovState_init cfg = \<lparr>V = replicate (NB_ATOMS cfg) 0, yC = replicate (NB_ATOMS cfg) 0\<rparr>"

subsection \<open>The update rule on one MarkovState\<close>

text \<open>
  The body of the inner loop of \<open>ActionValueFunction.update\<close> for the atom with index
  \<open>i\<close> and boundary \<open>atom\<close>, the reward \<open>r\<close> and the candidate value \<open>v\<close>. It reads
  \<open>V[i]\<close> and \<open>yC[i]\<close> first, then writes both.
\<close>

definition atom_step :: "config \<Rightarrow> real \<Rightarrow> real \<Rightarrow> MarkovState \<Rightarrow> nat \<times> real \<Rightarrow> error + MarkovState" where
  "atom_step cfg r v ms = (\<lambda>(i, atom).
     bind_err (np_get (V ms) (int i)) (\<lambda>V_i.
     bind_err (np_get (yC ms) (int i)) (\<lambda>yC_i.
       Inr (ms\<lparr>V := (V ms)[i := (if V_i \<ge> r + gamma cfg * v
                                  then V_i + beta cfg * (1 - 1 / atom)
                                  else V_i + beta cfg)],
               yC := (yC ms)[i := (1 - beta cfg) * yC_i
                                  + beta cfg * (atom * V_i + min 0 (r + gamma cfg * v - V_i))]\<rparr>))))"

text \<open>\<open>for i, atom in enumerate(atoms[1:])\<close>\<close>

fun update_atoms :: "config \<Rightarrow> real \<Rightarrow> real \<Rightarrow> MarkovState \<Rightarrow> (nat \<times> real) list \<Rightarrow> error + MarkovState" where
  "update_atoms cfg r v ms [] = Inr ms"
| "update_atoms cfg r v ms (ia # ias) =
     bind_err (atom_step cfg r v ms ia) (\<lambda>ms'. update_atoms cfg r v ms' ias)"

text \<open>\<open>for v in V_x\<close>\<close>

fun update_targets :: "config \<Rightarrow> real \<Rightarrow> MarkovState \<Rightarrow> real list \<Rightarrow> error + MarkovState" where
  "update_targets cfg r ms [] = Inr ms"
| "update_targets cfg r ms (v # vs) =
     bind_err (update_atoms cfg r v ms (enumerate 0 (tl (atoms cfg))))
       (\<lambda>ms'. update_targets cfg r ms' vs)"

subsection \<open>CVaR/quantile conversion\<close>

text \<open>The elementwise difference \<open>xs[1:] - xs[:-1]\<close> of a numpy array.\<close>

definition np_diff :: "real list \<Rightarrow> real list" where
  "np_diff xs = map (\<lambda>(hi, lo). hi - lo) (zip (tl xs) (butlast xs))"

text \<open>\<open>atom_p = atoms[1:] - atoms[:-1]\<close>\<close>

definition atom_p :: "config \<Rightarrow> real list" where
  "atom_p cfg = np_diff (atoms cfg)"

text \<open>
  Modelled from the spec: \<open>util.cvar_computation.yc_to_var\<close> is not part of the sources
  at hand. The specification describes it as finite differencing,
  \<open>V[i] = (yC[i] - yC[i-1]) / mass[i]\<close> with \<open>yC[-1]\<close> treated as 0, where the masses
  are the consecutive differences of the atoms. \<open>finite_diff prev\<close> is the sequence of
  differences, \<open>prev\<close> standing for the entry before the first. The specification does
  not say what happens when the lengths disagree; the model yields a quantile for every
  index that has both a difference and a mass.
\<close>

fun finite_diff :: "real \<Rightarrow> real list \<Rightarrow> real list" where
  "finite_diff prev [] = []"
| "finite_diff prev (y # ys) = (y - prev) # finite_diff y ys"

definition yc_to_var :: "real list \<Rightarrow> real list \<Rightarrow> real list" where
  "yc_to_var ats yc = map (\<lambda>(d, m). d / m) (zip (finite_diff 0 yc) (np_diff ats))"

text \<open>
  The specification's way back from quantiles to the scaled CVaR sequence: the cumulative
  sum of \<open>mass[i] * V[i]\<close>. The program has no such function; it is the reference the
  round-trip properties compare with.
\<close>

fun cumsum_from :: "real \<Rightarrow> real list \<Rightarrow> real list" where
  "cumsum_from acc [] = []"
| "cumsum_from acc (x # xs) = (acc + x) # cumsum_from (acc + x) xs"

definition cvar_envelope :: "real list \<Rightarrow> real list \<Rightarrow> real list" where
  "cvar_envelope ats vs = cumsum_from 0 (map (\<lambda>(m, v). m * v) (zip (np_diff ats) vs))"

subsection \<open>Queries of a MarkovState\<close>

definition dist_from_yc :: "config \<Rightarrow> MarkovState \<Rightarrow> real list" where
  "dist_from_yc cfg ms = yc_to_var (atoms cfg) (yC ms)"

text \<open>\<open>np.dot\<close> of two one-dimensional arrays: the shapes must agree.\<close>

definition np_dot :: "real list \<Rightarrow> real list \<Rightarrow> error + real" where
  "np_dot xs ys =
     (if length xs = length ys then Inr (sum_list (map (\<lambda>(a, b). a * b) (zip xs ys)))
      else Inl ValueError)"

definition expected_value :: "config \<Rightarrow> MarkovState \<Rightarrow> error + real" where
  "expected_value cfg ms = np_dot (atom_p cfg) (dist_from_yc cfg ms)"

text \<open>
  The search loops of \<open>yc_alpha\<close> and \<open>var_alpha\<close>:
  \<open>i = 0; for i in range(...): if alpha < atoms[i]: break\<close>. The first argument after
  \<open>alpha\<close> is the value \<open>i\<close> holds so far, the list is the rest of the range; the result
  is the value of \<open>i\<close> after the loop.
\<close>

fun find_break :: "real list \<Rightarrow> real \<Rightarrow> nat \<Rightarrow> nat list \<Rightarrow> nat" where
  "find_break ats alpha i [] = i"
| "find_break ats alpha i (j # js) = (if alpha < ats ! j then j else find_break ats alpha j js)"

definition yc_alpha :: "config \<Rightarrow> MarkovState \<Rightarrow> real \<Rightarrow> error + real" where
  "yc_alpha cfg ms alpha =
     (let i = find_break (atoms cfg) alpha 0 [1..<length (atoms cfg)] in
      bind_err (np_get (atoms cfg) (int i - 1)) (\<lambda>lo.
      bind_err (np_get (atoms cfg) (int i)) (\<lambda>hi.
        let alpha_portion = (alpha - lo) / (hi - lo) in
        if i = 1 then
          bind_err (np_get (yC ms) (int i - 1)) (\<lambda>y1. Inr (alpha_portion * y1))
        else
          bind_err (np_get (yC ms) (int i - 2)) (\<lambda>y2.
          bind_err (np_get (yC ms) (int i - 1)) (\<lambda>y1.
            Inr (y2 + alpha_portion * (y1 - y2)))))))"

text \<open>\<open>for p, v in zip(atom_p, self.V)\<close>, with the accumulator \<open>e_min\<close>.\<close>

fun e_min_loop :: "real \<Rightarrow> real \<Rightarrow> (real \<times> real) list \<Rightarrow> real" where
  "e_min_loop s e_min [] = e_min"
| "e_min_loop s e_min ((p, v) # pvs) =
     (if v < s then e_min_loop s (e_min + p * (v - s)) pvs else e_min)"

definition e_min_s :: "config \<Rightarrow> MarkovState \<Rightarrow> real \<Rightarrow> real" where
  "e_min_s cfg ms s = e_min_loop s 0 (zip (atom_p cfg) (V ms))"

subsection \<open>The world and the table\<close>

text \<open>
  Modelled from the spec: the grid world (\<open>cliffwalker\<close>) is not part of the sources at
  hand. The specification lists what the environment exposes: \<open>initial_state\<close>, a finite
  set of \<open>goal_states\<close>, a finite enumeration \<open>ACTIONS\<close>, the grid's \<open>height\<close> and \<open>width\<close>,
  and \<open>sample_transition\<close>. The program reads the coordinates \<open>x.y\<close> and \<open>x.x\<close> of a state
  and indexes the third axis of the table with the elements of \<open>ACTIONS\<close>.
\<close>

record State =
  state_y :: int
  state_x :: int

record World =
  height :: nat
  width :: nat
  ACTIONS :: "int list"
  initial_state :: State
  goal_states :: "State list"

text \<open>
  \<open>self.Q\<close> is an array of shape \<open>(height, width, len(ACTIONS))\<close> holding one MarkovState
  per cell; the cells are distinct objects.
\<close>

record ActionValueFunction =
  world :: World
  Q :: "nat \<times> nat \<times> nat \<Rightarrow> MarkovState"

definition ActionValueFunction_init :: "config \<Rightarrow> World \<Rightarrow> ActionValueFunction" where
  "ActionValueFunction_init cfg w = \<lparr>world = w, Q = (\<lambda>ix. MarkovState_init cfg)\<rparr>"

text \<open>The cell that the index expression \<open>self.Q[r, c, a]\<close> denotes.\<close>

definition Q_index :: "ActionValueFunction \<Rightarrow> int \<Rightarrow> int \<Rightarrow> int \<Rightarrow> error + nat \<times> nat \<times> nat" where
  "Q_index avf r c a =
     bind_err (np_index (height (world avf)) r) (\<lambda>r'.
     bind_err (np_index (width (world avf)) c) (\<lambda>c'.
     bind_err (np_index (length (ACTIONS (world avf))) a) (\<lambda>a'.
       Inr (r', c', a'))))"

definition Q_get :: "ActionValueFunction \<Rightarrow> int \<Rightarrow> int \<Rightarrow> int \<Rightarrow> error + MarkovState" where
  "Q_get avf r c a = bind_err (Q_index avf r c a) (\<lambda>ix. Inr (Q avf ix))"

subsection \<open>ActionValueFunction\<close>

text \<open>A list comprehension whose elements may raise: the first error wins.\<close>

fun sequence_err :: "(error + 'a) list \<Rightarrow> error + 'a list" where
  "sequence_err [] = Inr []"
| "sequence_err (m # ms) =
     bind_err m (\<lambda>v. bind_err (sequence_err ms) (\<lambda>vs. Inr (v # vs)))"

text \<open>\<open>np.max\<close> and \<open>np.argmax\<close> of a list: both raise ValueError on an empty one.\<close>

definition np_max :: "real list \<Rightarrow> error + real" where
  "np_max xs = (case xs of [] \<Rightarrow> Inl ValueError | x # xs' \<Rightarrow> Inr (fold max xs' x))"

fun argmax_from :: "nat \<Rightarrow> real \<Rightarrow> nat \<Rightarrow> real list \<Rightarrow> nat" where
  "argmax_from best bv j [] = best"
| "argmax_from best bv j (x # xs) =
     (if bv < x then argmax_from j x (Suc j) xs else argmax_from best bv (Suc j) xs)"

definition np_argmax :: "real list \<Rightarrow> error + nat" where
  "np_argmax xs = (case xs of [] \<Rightarrow> Inl ValueError | x # xs' \<Rightarrow> Inr (argmax_from 0 x 1 xs'))"

definition sup_q :: "config \<Rightarrow> ActionValueFunction \<Rightarrow> State \<Rightarrow> error + real list" where
  "sup_q cfg avf x =
     bind_err
       (sequence_err (map (\<lambda>i.
          bind_err
            (sequence_err (map (\<lambda>a.
               bind_err (Q_get avf (state_y x) (state_x x) a) (\<lambda>ms. np_get (yC ms) (int i)))
               (ACTIONS (world avf))))
            np_max)
          [0..<NB_ATOMS cfg]))
       (\<lambda>yc. Inr (yc_to_var (atoms cfg) yc))"

text \<open>
  \<open>update\<close> mutates the MarkovState of \<open>(x, a)\<close> in place and returns nothing; the model
  returns the table after the call. \<open>sup_q(x_)\<close> is evaluated once, before the loops.
  When the call raises, the model keeps the error only.
\<close>

definition update :: "config \<Rightarrow> ActionValueFunction \<Rightarrow> State \<Rightarrow> int \<Rightarrow> State \<Rightarrow> real \<Rightarrow> error + ActionValueFunction" where
  "update cfg avf x a x_next r =
     bind_err (sup_q cfg avf x_next) (\<lambda>V_x.
     bind_err (Q_index avf (state_y x) (state_x x) a) (\<lambda>ix.
     bind_err (update_targets cfg r (Q avf ix) V_x) (\<lambda>ms.
     bind_err (np_get (V ms) 0) (\<lambda>V_first.
     bind_err (np_get (V ms) (- 1)) (\<lambda>V_last.
       if V_first \<le> V_last then Inr (avf\<lparr>Q := (Q avf)(ix := ms)\<rparr>)
       else Inl AssertionError)))))"

definition next_action_alpha :: "config \<Rightarrow> ActionValueFunction \<Rightarrow> State \<Rightarrow> real \<Rightarrow> error + nat" where
  "next_action_alpha cfg avf x alpha =
     bind_err
       (sequence_err (map (\<lambda>a.
          bind_err (Q_get avf (state_y x) (state_x x) a) (\<lambda>ms. yc_alpha cfg ms alpha))
          (ACTIONS (world avf))))
       np_argmax"

definition next_action_s :: "config \<Rightarrow> ActionValueFunction \<Rightarrow> State \<Rightarrow> real \<Rightarrow> error + nat" where
  "next_action_s cfg avf x s =
     bind_err
       (sequence_err (map (\<lambda>a.
          bind_err (Q_get avf (state_y x) (state_x x) a) (\<lambda>ms. Inr (e_min_s cfg ms s)))
          (ACTIONS (world avf))))
       np_argmax"

text \<open>\<open>var_alpha\<close> indexes the table with \<open>[x.x, x.y, a]\<close>.\<close>

definition var_alpha :: "config \<Rightarrow> ActionValueFunction \<Rightarrow> State \<Rightarrow> int \<Rightarrow> real \<Rightarrow> error + real" where
  "var_alpha cfg avf x a alpha =
     (let i = find_break (atoms cfg) alpha 0 [0..<length (atoms cfg)] in
      bind_err (Q_get avf (state_x x) (state_y x) a) (\<lambda>ms. np_get (V ms) (int i - 1)))"

subsection \<open>The learning loop\<close>

text \<open>
  The random choices of a run come from outside the program: \<open>np.random.random()\<close>,
  \<open>np.random.choice(action_space)\<close> and the world's \<open>sample_transition\<close>. They are
  parameters of the model, each threading a generator state of an arbitrary type.
\<close>

record 'g environment =
  random_random :: "'g \<Rightarrow> real \<times> 'g"
  random_choice :: "int list \<Rightarrow> 'g \<Rightarrow> int \<times> 'g"
  sample_transition :: "State \<Rightarrow> int \<Rightarrow> 'g \<Rightarrow> (State \<times> real) \<times> 'g"

definition eps_greedy :: "'g environment \<Rightarrow> int \<Rightarrow> real \<Rightarrow> int list \<Rightarrow> 'g \<Rightarrow> error + int \<times> 'g" where
  "eps_greedy env a epsilon action_space g =
     (case random_random env g of (u, g1) \<Rightarrow>
        if u < epsilon then
          (if action_space = [] then Inl ValueError
           else Inr (random_choice env action_space g1))
        else Inr (a, g1))"

text \<open>
  The head of an episode: the initial state, the first action and the starting value
  of \<open>s\<close>.
\<close>

definition episode_init :: "config \<Rightarrow> 'g environment \<Rightarrow> ActionValueFunction \<Rightarrow> real \<Rightarrow> 'g \<Rightarrow> error + State \<times> real \<times> 'g" where
  "episode_init cfg env avf alpha g =
     (let x = initial_state (world avf) in
      bind_err (next_action_alpha cfg avf x alpha) (\<lambda>greedy.
      bind_err (eps_greedy env (int greedy) (eps cfg) (ACTIONS (world avf)) g) (\<lambda>(a, g1).
      bind_err (var_alpha cfg avf x a alpha) (\<lambda>s.
        Inr (x, s, g1)))))"

text \<open>The body of the inner \<open>while\<close> loop, without the increment of the counter \<open>i\<close>.\<close>

definition episode_body :: "config \<Rightarrow> 'g environment \<Rightarrow> ActionValueFunction \<Rightarrow> State \<Rightarrow> real \<Rightarrow> 'g \<Rightarrow> error + ActionValueFunction \<times> State \<times> real \<times> 'g" where
  "episode_body cfg env avf x s g =
     bind_err (next_action_s cfg avf x s) (\<lambda>greedy.
     bind_err (eps_greedy env (int greedy) (eps cfg) (ACTIONS (world avf)) g) (\<lambda>(a, g1).
       case sample_transition env x a g1 of ((x_next, r), g2) \<Rightarrow>
         bind_err (update cfg avf x a x_next r) (\<lambda>avf'.
           Inr (avf', x_next, (s - r) / gamma cfg, g2))))"

text \<open>
  \<open>while x not in world.goal_states and i < max_episode_length\<close>; the result is the
  state of the local variables when the loop ends.
\<close>

function episode_loop :: "config \<Rightarrow> 'g environment \<Rightarrow> real \<Rightarrow> ActionValueFunction \<Rightarrow> State \<Rightarrow> real \<Rightarrow> nat \<Rightarrow> 'g \<Rightarrow> error + ActionValueFunction \<times> State \<times> real \<times> nat \<times> 'g" where
  "episode_loop cfg env max_episode_length avf x s i g =
     (if x \<notin> set (goal_states (world avf)) \<and> real i < max_episode_length then
        (case episode_body cfg env avf x s g of
           Inl e \<Rightarrow> Inl e
         | Inr (avf', x', s', g') \<Rightarrow> episode_loop cfg env max_episode_length avf' x' s' (Suc i) g')
      else Inr (avf, x, s, i, g))"
  by pat_completeness auto
termination
  by (relation "measure (\<lambda>(cfg, env, m, avf, x, s, i, g). nat \<lceil>m\<rceil> - i)") (auto, linarith)

text \<open>\<open>while e < max_episodes\<close>\<close>

function q_learning_loop :: "config \<Rightarrow> 'g environment \<Rightarrow> real \<Rightarrow> real \<Rightarrow> real \<Rightarrow> ActionValueFunction \<Rightarrow> nat \<Rightarrow> 'g \<Rightarrow> error + ActionValueFunction \<times> 'g" where
  "q_learning_loop cfg env alpha max_episodes max_episode_length avf e g =
     (if real e < max_episodes then
        (case episode_init cfg env avf alpha g of
           Inl err \<Rightarrow> Inl err
         | Inr (x, s, g1) \<Rightarrow>
             (case episode_loop cfg env max_episode_length avf x s 0 g1 of
                Inl err \<Rightarrow> Inl err
              | Inr (avf', x', s', i', g') \<Rightarrow>
                  q_learning_loop cfg env alpha max_episodes max_episode_length avf' (Suc e) g'))
      else Inr (avf, g))"
  by pat_completeness auto
termination
  by (relation "measure (\<lambda>(cfg, env, alpha, m, ml, avf, e, g). nat \<lceil>m\<rceil> - e)") (auto, linarith)

definition q_learning :: "config \<Rightarrow> 'g environment \<Rightarrow> World \<Rightarrow> real \<Rightarrow> real \<Rightarrow> real \<Rightarrow> 'g \<Rightarrow> error + ActionValueFunction \<times> 'g" where
  "q_learning cfg env w alpha max_episodes max_episode_length g =
     q_learning_loop cfg env alpha max_episodes max_episode_length
       (ActionValueFunction_init cfg w) 0 g"

subsection \<open>Concrete data\<close>

text \<open>
  The constants as the program's main block runs it: \<open>NB_ATOMS = 4\<close> linearly spaced
  atoms, \<open>beta = 0.1\<close>, \<open>eps = 0.1\<close> and a grid of height 4 and width 6 with four
  actions. The value of \<open>gamma\<close> and the initial and goal states are not in the sources
  at hand; they are chosen here.
\<close>

definition linear_config :: config where
  "linear_config =
     \<lparr>atoms = [0, 1/4, 1/2, 3/4, 1], NB_ATOMS = 4, gamma = 19/20, beta = 1/10, eps = 1/10\<rparr>"

definition grid_world :: World where
  "grid_world =
     \<lparr>height = 4, width = 6, ACTIONS = [0, 1, 2, 3],
      initial_state = \<lparr>state_y = 3, state_x = 0\<rparr>,
      goal_states = [\<lparr>state_y = 3, state_x = 5\<rparr>]\<rparr>"

definition fresh_table :: ActionValueFunction where
  "fresh_table = ActionValueFunction_init linear_config grid_world"

text \<open>A MarkovState with sorted quantiles and the scaled CVaR values that belong to them.\<close>

definition sample_state :: MarkovState where
  "sample_state = \<lparr>V = [1, 2, 3, 4], yC = [1/4, 3/4, 3/2, 5/2]\<rparr>"

subsection \<open>Reference notions for the update rule\<close>

text \<open>
  What one step of the rule does to the pair \<open>(V[i], yC[i])\<close> of an atom with boundary
  \<open>atom\<close>, for the reward \<open>r\<close> and the candidate value \<open>v\<close>: the formulas of the loop
  body, on the two numbers alone.
\<close>

definition nudge :: "config \<Rightarrow> real \<Rightarrow> real \<Rightarrow> real \<times> real \<Rightarrow> real \<Rightarrow> real \<times> real" where
  "nudge cfg r atom = (\<lambda>(V_i, yC_i) v.
     (if V_i \<ge> r + gamma cfg * v then V_i + beta cfg * (1 - 1 / atom) else V_i + beta cfg,
      (1 - beta cfg) * yC_i + beta cfg * (atom * V_i + min 0 (r + gamma cfg * v - V_i))))"

text \<open>
  The specification's reading of \<open>update\<close>: the step runs once per atom in a call, every
  step reading the values the MarkovState held at entry. With one candidate value \<open>v\<close>
  this is a single pass over the atoms.
\<close>

definition update_once_per_atom :: "config \<Rightarrow> real \<Rightarrow> real \<Rightarrow> MarkovState \<Rightarrow> MarkovState" where
  "update_once_per_atom cfg r v ms =
     \<lparr>V = map (\<lambda>(i, atom). fst (nudge cfg r atom (V ms ! i, yC ms ! i) v))
            (enumerate 0 (tl (atoms cfg))),
      yC = map (\<lambda>(i, atom). snd (nudge cfg r atom (V ms ! i, yC ms ! i) v))
             (enumerate 0 (tl (atoms cfg)))\<rparr>"

text \<open>
  A table whose cell \<open>(3, 0, 0)\<close> holds quantiles that are not sorted, and an environment
  without randomness: the random number is always \<open>1/2\<close>, the random choice the first
  action, and every transition moves one row up with reward \<open>-1\<close>.
\<close>

definition skewed_table :: ActionValueFunction where
  "skewed_table =
     fresh_table\<lparr>Q := (Q fresh_table)((3, 0, 0) := \<lparr>V = [1/2, 0, 0, 0], yC = [0, 0, 0, 0]\<rparr>)\<rparr>"

definition calm_env :: "unit environment" where
  "calm_env =
     \<lparr>random_random = (\<lambda>g. (1/2, g)),
      random_choice = (\<lambda>action_space g. (hd action_space, g)),
      sample_transition = (\<lambda>x a g. ((\<lparr>state_y = state_y x - 1, state_x = state_x x\<rparr>, - 1), g))\<rparr>"

text \<open>A table in which two actions of the state with \<open>y = 2, x = 0\<close> hold different CVaR values.\<close>

definition mixed_table :: ActionValueFunction where
  "mixed_table =
     fresh_table\<lparr>Q := (Q fresh_table)
       ((2, 0, 0) := sample_state,
        (2, 0, 1) := \<lparr>V = [0, 0, 0, 0], yC = [1/2, 1/2, 2, 2]\<rparr>)\<rparr>"

section \<open>Basic facts\<close>

lemma bind_err_Inl [simp]: "bind_err (Inl e) f = Inl e"
  by (simp add: bind_err_def)

lemma bind_err_Inr [simp]: "bind_err (Inr v) f = f v"
  by (simp add: bind_err_def)

lemma bind_err_eq_Inr:
  "bind_err m f = Inr b \<longleftrightarrow> (\<exists>a. m = Inr a \<and> f a = Inr b)"
  by (cases m) simp_all

lemma np_index_nat [simp]: "np_index n (int i) = (if i < n then Inr i else Inl IndexError)"
  by (simp add: np_index_def)

lemma np_get_nat [simp]: "np_get xs (int i) = (if i < length xs then Inr (xs ! i) else Inl IndexError)"
  by (simp add: np_get_def)

subsection \<open>Finite differences and cumulative sums\<close>

lemma length_np_diff [simp]: "length (np_diff xs) = length xs - 1"
  by (simp add: np_diff_def)

lemma np_diff_nth: "i < length xs - 1 \<Longrightarrow> np_diff xs ! i = xs ! Suc i - xs ! i"
  by (simp add: np_diff_def nth_tl nth_butlast)

lemma np_diff_pos:
  assumes "sorted_wrt (<) xs" and "m \<in> set (np_diff xs)"
  shows "0 < m"
proof -
  from assms(2) obtain i where i: "i < length xs - 1" and m: "m = np_diff xs ! i"
    by (metis in_set_conv_nth length_np_diff)
  have "xs ! i < xs ! Suc i"
    using assms(1) i by (simp add: sorted_wrt_nth_less)
  then show ?thesis using i m by (simp add: np_diff_nth)
qed

lemma length_finite_diff [simp]: "length (finite_diff prev ys) = length ys"
  by (induction ys arbitrary: prev) simp_all

lemma finite_diff_nth:
  "i < length ys \<Longrightarrow> finite_diff prev ys ! i = ys ! i - (if i = 0 then prev else ys ! (i - 1))"
proof (induction ys arbitrary: prev i)
  case Nil
  then show ?case by simp
next
  case (Cons y ys)
  then show ?case by (cases i) (auto simp: nth_Cons')
qed

lemma cumsum_finite_diff:
  assumes "\<forall>m \<in> set ms. m \<noteq> 0" and "length yc \<le> length ms"
  shows "cumsum_from prev (map (\<lambda>(m, v). m * v) (zip ms (map (\<lambda>(d, m). d / m) (zip (finite_diff prev yc) ms)))) = yc"
  using assms
proof (induction yc arbitrary: prev ms)
  case Nil
  then show ?case by simp
next
  case (Cons y yc)
  then obtain m ms' where ms: "ms = m # ms'" by (cases ms) auto
  with Cons.prems have "m \<noteq> 0" "\<forall>m \<in> set ms'. m \<noteq> 0" "length yc \<le> length ms'" by auto
  then show ?case using Cons.IH[of ms' y] ms by simp
qed

lemma sum_finite_diff:
  assumes "\<forall>m \<in> set ms. m \<noteq> 0" and "length yc \<le> length ms" and "yc \<noteq> []"
  shows "sum_list (map (\<lambda>(a, b). a * b) (zip ms (map (\<lambda>(d, m). d / m) (zip (finite_diff prev yc) ms)))) = last yc - prev"
  using assms
proof (induction yc arbitrary: prev ms)
  case Nil
  then show ?case by simp
next
  case (Cons y yc)
  then obtain m ms' where ms: "ms = m # ms'" by (cases ms) auto
  with Cons.prems have *: "m \<noteq> 0" "\<forall>m \<in> set ms'. m \<noteq> 0" "length yc \<le> length ms'" by auto
  show ?case
  proof (cases "yc = []")
    case True
    then show ?thesis using ms * by simp
  next
    case False
    then show ?thesis using Cons.IH[of ms' y] ms * by simp
  qed
qed

subsection \<open>The lower partial expectation\<close>

lemma e_min_loop_sum:
  "e_min_loop s acc pvs
     = acc + sum_list (map (\<lambda>(p, v). p * (v - s)) (takeWhile (\<lambda>(p, v). v < s) pvs))"
  by (induction s acc pvs rule: e_min_loop.induct) simp_all

lemma below_sum_nonpos:
  assumes "\<forall>p \<in> fst ` set pvs. 0 \<le> p"
  shows "sum_list (map (\<lambda>(p, v). p * (v - s)) (takeWhile (\<lambda>(p, v). v < s) pvs)) \<le> (0::real)"
  using assms
proof (induction pvs)
  case Nil
  then show ?case by simp
next
  case (Cons pv pvs)
  obtain p v where pv: "pv = (p, v)" by (cases pv)
  with Cons.prems have "0 \<le> p" by simp
  then have "v < s \<Longrightarrow> p * (v - s) \<le> 0"
    by (simp add: mult_nonneg_nonpos)
  then show ?case using Cons pv by auto
qed

lemma below_sum_antimono:
  assumes "\<forall>p \<in> fst ` set pvs. 0 \<le> p" and "(s1::real) \<le> s2"
  shows "sum_list (map (\<lambda>(p, v). p * (v - s2)) (takeWhile (\<lambda>(p, v). v < s2) pvs))
         \<le> sum_list (map (\<lambda>(p, v). p * (v - s1)) (takeWhile (\<lambda>(p, v). v < s1) pvs))"
  using assms(1)
proof (induction pvs)
  case Nil
  then show ?case by simp
next
  case (Cons pv pvs)
  obtain p v where pv: "pv = (p, v)" by (cases pv)
  with Cons.prems have p: "0 \<le> p" and rest: "\<forall>p \<in> fst ` set pvs. 0 \<le> p" by simp_all
  show ?case
  proof (cases "v < s1")
    case True
    then have "v < s2" using assms(2) by simp
    moreover have "p * (v - s2) \<le> p * (v - s1)"
      using p assms(2) by (simp add: mult_left_mono)
    ultimately show ?thesis using True pv Cons.IH[OF rest] by simp
  next
    case False
    have "sum_list (map (\<lambda>(p, v). p * (v - s2)) (takeWhile (\<lambda>(p, v). v < s2) (pv # pvs))) \<le> 0"
      by (rule below_sum_nonpos) (use Cons.prems in simp)
    then show ?thesis using False pv by simp
  qed
qed

lemma takeWhile_filter_sorted:
  assumes "sorted vs"
  shows "takeWhile (\<lambda>(p, v). v < s) (zip ps vs) = filter (\<lambda>(p, v). v < (s::real)) (zip ps vs)"
  using assms
proof (induction vs arbitrary: ps)
  case Nil
  then show ?case by simp
next
  case (Cons v vs)
  show ?case
  proof (cases ps)
    case Nil
    then show ?thesis by simp
  next
    case (Cons p ps')
    show ?thesis
    proof (cases "v < s")
      case True
      then show ?thesis using Cons.IH[of ps'] Cons.prems Cons by simp
    next
      case False
      with Cons.prems have "\<forall>w \<in> set vs. \<not> w < s" by auto
      then have "filter (\<lambda>(p, v). v < s) (zip ps' vs) = []"
        by (auto simp: filter_empty_conv dest: set_zip_rightD)
      then show ?thesis using False Cons by simp
    qed
  qed
qed

subsection \<open>The search loop and the interpolation\<close>

lemma find_break_first:
  assumes "lo \<le> i" and "i < n" and "\<forall>k. lo \<le> k \<and> k < i \<longrightarrow> \<not> alpha < ats ! k"
    and "alpha < ats ! i"
  shows "find_break ats alpha c [lo..<n] = i"
  using assms
proof (induction "i - lo" arbitrary: lo c)
  case 0
  then have "lo = i" by simp
  then have "[lo..<n] = i # [Suc i..<n]" using 0 by (simp add: upt_conv_Cons)
  then show ?case using 0 by simp
next
  case (Suc d)
  then have lt: "lo < i" by simp
  then have "[lo..<n] = lo # [Suc lo..<n]" using Suc.prems by (simp add: upt_conv_Cons)
  moreover have "\<not> alpha < ats ! lo" using Suc.prems lt by simp
  moreover have "find_break ats alpha lo [Suc lo..<n] = i"
    using Suc.hyps(1)[of "Suc lo" lo] Suc.hyps(2) Suc.prems lt by simp
  ultimately show ?case by simp
qed

lemma bracket_exists:
  assumes "ats ! 0 < (alpha::real)" and "alpha < last ats" and "ats \<noteq> []"
  shows "\<exists>i. 1 \<le> i \<and> i < length ats \<and> ats ! (i - 1) \<le> alpha \<and> alpha < ats ! (i::nat)"
proof -
  define i where "i = (LEAST k. alpha < ats ! k)"
  have ex: "alpha < ats ! (length ats - 1)"
    using assms by (simp add: last_conv_nth)
  then have i: "alpha < ats ! i" unfolding i_def by (rule LeastI)
  have le: "i \<le> length ats - 1" unfolding i_def using ex by (rule Least_le)
  have "i \<noteq> 0" using i assms(1) by (cases i) auto
  then have "i - 1 < i" by simp
  then have "\<not> alpha < ats ! (i - 1)" unfolding i_def by (rule not_less_Least)
  then show ?thesis using i le \<open>i \<noteq> 0\<close> assms(3)
    by (intro exI[of _ i]) (auto simp: Suc_le_eq)
qed

lemma yc_alpha_at:
  assumes "sorted (atoms cfg)" and "atoms cfg ! 0 = 0"
    and "length (atoms cfg) = length (yC ms) + 1"
    and "1 \<le> i" and "i < length (atoms cfg)"
    and "atoms cfg ! (i - 1) \<le> alpha" and "alpha < atoms cfg ! i"
  shows "yc_alpha cfg ms alpha = Inr
           (if i = 1 then (alpha / atoms cfg ! 1) * yC ms ! 0
            else yC ms ! (i - 2)
                 + ((alpha - atoms cfg ! (i - 1)) / (atoms cfg ! i - atoms cfg ! (i - 1)))
                   * (yC ms ! (i - 1) - yC ms ! (i - 2)))"
proof -
  have "\<forall>k. 1 \<le> k \<and> k < i \<longrightarrow> \<not> alpha < atoms cfg ! k"
  proof (intro allI impI)
    fix k assume "1 \<le> k \<and> k < i"
    then have "atoms cfg ! k \<le> atoms cfg ! (i - 1)"
      using assms(1,5) by (intro sorted_nth_mono) auto
    then show "\<not> alpha < atoms cfg ! k" using assms(6) by simp
  qed
  then have fb: "find_break (atoms cfg) alpha 0 [1..<length (atoms cfg)] = i"
    using assms(4,5,7) by (intro find_break_first) auto
  have i1: "int i - 1 = int (i - 1)" using assms(4) by simp
  have lo: "np_get (atoms cfg) (int i - 1) = Inr (atoms cfg ! (i - 1))"
    unfolding i1 using assms(5) by simp
  have hi: "np_get (atoms cfg) (int i) = Inr (atoms cfg ! i)"
    using assms(5) by simp
  have "i - 1 < length (yC ms)" using assms(3,4,5) by simp
  then have y1: "np_get (yC ms) (int i - 1) = Inr (yC ms ! (i - 1))"
    unfolding i1 by simp
  show ?thesis
  proof (cases "i = 1")
    case True
    have "yc_alpha cfg ms alpha
            = Inr ((alpha - atoms cfg ! (i - 1)) / (atoms cfg ! i - atoms cfg ! (i - 1)) * yC ms ! (i - 1))"
      unfolding yc_alpha_def Let_def fb lo hi y1 using True by simp
    then show ?thesis using True assms(2) by simp
  next
    case False
    then have i2: "int i - 2 = int (i - 2)" using assms(4) by simp
    have "i - 2 < length (yC ms)" using assms(3,4,5) by arith
    then have y2: "np_get (yC ms) (int i - 2) = Inr (yC ms ! (i - 2))"
      unfolding i2 by simp
    show ?thesis
      unfolding yc_alpha_def Let_def fb lo hi y1 y2 using False by simp
  qed
qed

subsection \<open>Which errors the operations raise\<close>

lemma np_index_Inl: "np_index n i = Inl e \<Longrightarrow> e = IndexError"
  by (auto simp: np_index_def split: if_splits)

lemma np_get_Inl: "np_get xs i = Inl e \<Longrightarrow> e = IndexError"
  by (cases "np_index (length xs) i") (auto simp: np_get_def dest: np_index_Inl)

lemma np_get_first: "np_get xs 0 = (if xs = [] then Inl IndexError else Inr (xs ! 0))"
  by (simp add: np_get_def np_index_def)

lemma np_get_last: "np_get xs (- 1) = (if xs = [] then Inl IndexError else Inr (last xs))"
proof (cases "xs = []")
  case True
  then show ?thesis by (simp add: np_get_def np_index_def)
next
  case False
  then have "nat (- 1 + int (length xs)) = length xs - 1" by (cases xs) auto
  moreover have "- int (length xs) \<le> - 1" using False by (cases xs) auto
  ultimately show ?thesis using False
    by (simp add: np_get_def np_index_def last_conv_nth)
qed

lemma sequence_err_map_Inr:
  "(\<forall>x \<in> set xs. f x = Inr (g x)) \<Longrightarrow> sequence_err (map f xs) = Inr (map g xs)"
  by (induction xs) simp_all

lemma sequence_err_Inl:
  "sequence_err ms = Inl e \<Longrightarrow> Inl e \<in> set ms"
proof (induction ms)
  case Nil
  then show ?case by simp
next
  case (Cons m ms)
  then show ?case
    by (cases m; cases "sequence_err ms") auto
qed

lemma np_max_Max: "xs \<noteq> [] \<Longrightarrow> np_max xs = Inr (Max (set xs))"
  by (cases xs) (simp_all add: np_max_def Max.set_eq_fold[symmetric])

lemma np_max_Inl: "np_max xs = Inl e \<Longrightarrow> e = ValueError"
  by (cases xs) (simp_all add: np_max_def)

lemma Q_index_Inl: "Q_index avf r c a = Inl e \<Longrightarrow> e = IndexError"
  unfolding Q_index_def
  by (cases "np_index (height (world avf)) r"; cases "np_index (width (world avf)) c";
      cases "np_index (length (ACTIONS (world avf))) a") (auto dest: np_index_Inl)

lemma Q_get_Inl: "Q_get avf r c a = Inl e \<Longrightarrow> e = IndexError"
  unfolding Q_get_def by (cases "Q_index avf r c a") (auto dest: Q_index_Inl)

lemma sup_q_Inl:
  assumes "sup_q cfg avf x = Inl e"
  shows "e \<noteq> AssertionError"
proof -
  let ?col = "\<lambda>i. sequence_err (map (\<lambda>a.
               bind_err (Q_get avf (state_y x) (state_x x) a) (\<lambda>ms. np_get (yC ms) (int i)))
               (ACTIONS (world avf)))"
  let ?rows = "map (\<lambda>i. bind_err (?col i) np_max) [0..<NB_ATOMS cfg]"
  from assms have "sequence_err ?rows = Inl e"
    unfolding sup_q_def by (cases "sequence_err ?rows") simp_all
  then have "Inl e \<in> set ?rows" by (rule sequence_err_Inl)
  then obtain i where i: "bind_err (?col i) np_max = Inl e" by auto
  show ?thesis
  proof (cases "?col i")
    case (Inl e')
    then have "e' = e" using i by simp
    with Inl have "Inl e \<in> set (map (\<lambda>a.
               bind_err (Q_get avf (state_y x) (state_x x) a) (\<lambda>ms. np_get (yC ms) (int i)))
               (ACTIONS (world avf)))" by (intro sequence_err_Inl) simp
    then obtain a where a: "bind_err (Q_get avf (state_y x) (state_x x) a) (\<lambda>ms. np_get (yC ms) (int i)) = Inl e"
      by auto
    then have "e = IndexError"
      by (cases "Q_get avf (state_y x) (state_x x) a") (auto dest: Q_get_Inl np_get_Inl split: if_splits)
    then show ?thesis by simp
  next
    case (Inr ys)
    then have "np_max ys = Inl e" using i by simp
    then show ?thesis by (auto dest: np_max_Inl)
  qed
qed

lemma atom_step_Inl: "atom_step cfg r v ms ia = Inl e \<Longrightarrow> e = IndexError"
  by (cases ia) (auto simp: atom_step_def split: if_splits)

lemma update_atoms_Inl: "update_atoms cfg r v ms ias = Inl e \<Longrightarrow> e = IndexError"
proof (induction ias arbitrary: ms)
  case Nil
  then show ?case by simp
next
  case (Cons ia ias)
  then show ?case
    by (cases "atom_step cfg r v ms ia") (auto dest: atom_step_Inl)
qed

lemma update_targets_Inl: "update_targets cfg r ms vs = Inl e \<Longrightarrow> e = IndexError"
proof (induction vs arbitrary: ms)
  case Nil
  then show ?case by simp
next
  case (Cons v vs)
  then show ?case
    by (cases "update_atoms cfg r v ms (enumerate 0 (tl (atoms cfg)))") (auto dest: update_atoms_Inl)
qed

subsection \<open>The loops of the update rule, atom by atom\<close>

lemma atom_step_pairs:
  assumes "i < length (V ms)" and "length (yC ms) = length (V ms)"
  shows "\<exists>ms'. atom_step cfg r v ms (i, atom) = Inr ms' \<and>
           length (V ms') = length (V ms) \<and> length (yC ms') = length (V ms) \<and>
           (\<forall>j < length (V ms). (V ms' ! j, yC ms' ! j)
              = (if j = i then nudge cfg r atom (V ms ! j, yC ms ! j) v else (V ms ! j, yC ms ! j)))"
  using assms by (simp add: atom_step_def nudge_def)

lemma update_atoms_pairs:
  assumes "k + length ats \<le> length (V ms)" and "length (yC ms) = length (V ms)"
  shows "\<exists>ms'. update_atoms cfg r v ms (enumerate k ats) = Inr ms' \<and>
           length (V ms') = length (V ms) \<and> length (yC ms') = length (V ms) \<and>
           (\<forall>j < length (V ms). (V ms' ! j, yC ms' ! j)
              = (if k \<le> j \<and> j < k + length ats
                 then nudge cfg r (ats ! (j - k)) (V ms ! j, yC ms ! j) v
                 else (V ms ! j, yC ms ! j)))"
  using assms
proof (induction ats arbitrary: k ms)
  case Nil
  then show ?case by auto
next
  case (Cons atom ats)
  from Cons.prems have k: "k < length (V ms)" by simp
  from atom_step_pairs[OF k Cons.prems(2), of cfg r v atom]
  obtain ms1 where s1: "atom_step cfg r v ms (k, atom) = Inr ms1"
    and l1: "length (V ms1) = length (V ms)" "length (yC ms1) = length (V ms)"
    and p1: "\<forall>j < length (V ms). (V ms1 ! j, yC ms1 ! j)
              = (if j = k then nudge cfg r atom (V ms ! j, yC ms ! j) v else (V ms ! j, yC ms ! j))"
    by blast
  have "Suc k + length ats \<le> length (V ms1)" using Cons.prems l1 by simp
  moreover have "length (yC ms1) = length (V ms1)" using l1 by simp
  ultimately obtain ms2 where s2: "update_atoms cfg r v ms1 (enumerate (Suc k) ats) = Inr ms2"
    and l2: "length (V ms2) = length (V ms1)" "length (yC ms2) = length (V ms1)"
    and p2: "\<forall>j < length (V ms1). (V ms2 ! j, yC ms2 ! j)
              = (if Suc k \<le> j \<and> j < Suc k + length ats
                 then nudge cfg r (ats ! (j - Suc k)) (V ms1 ! j, yC ms1 ! j) v
                 else (V ms1 ! j, yC ms1 ! j))"
    using Cons.IH[of "Suc k" ms1] by blast
  have "\<forall>j < length (V ms). (V ms2 ! j, yC ms2 ! j)
              = (if k \<le> j \<and> j < k + length (atom # ats)
                 then nudge cfg r ((atom # ats) ! (j - k)) (V ms ! j, yC ms ! j) v
                 else (V ms ! j, yC ms ! j))"
  proof (intro allI impI)
    fix j assume j: "j < length (V ms)"
    show "(V ms2 ! j, yC ms2 ! j)
              = (if k \<le> j \<and> j < k + length (atom # ats)
                 then nudge cfg r ((atom # ats) ! (j - k)) (V ms ! j, yC ms ! j) v
                 else (V ms ! j, yC ms ! j))"
    proof (cases "j = k")
      case True
      then show ?thesis using p1 p2 j l1 by simp
    next
      case False
      then show ?thesis using p1 p2 j l1 by (auto simp: nth_Cons' Suc_le_eq)
    qed
  qed
  then show ?case using s1 s2 l1 l2 by simp
qed

lemma update_targets_pairs:
  assumes "length (atoms cfg) = length (V ms) + 1" and "length (yC ms) = length (V ms)"
  shows "\<exists>ms'. update_targets cfg r ms vs = Inr ms' \<and>
           length (V ms') = length (V ms) \<and> length (yC ms') = length (V ms) \<and>
           (\<forall>j < length (V ms). (V ms' ! j, yC ms' ! j)
              = foldl (nudge cfg r (atoms cfg ! (j + 1))) (V ms ! j, yC ms ! j) vs)"
  using assms
proof (induction vs arbitrary: ms)
  case Nil
  then show ?case by simp
next
  case (Cons v vs)
  have "0 + length (tl (atoms cfg)) \<le> length (V ms)" using Cons.prems by simp
  from update_atoms_pairs[OF this Cons.prems(2), of cfg r v]
  obtain ms1 where s1: "update_atoms cfg r v ms (enumerate 0 (tl (atoms cfg))) = Inr ms1"
    and l1: "length (V ms1) = length (V ms)" "length (yC ms1) = length (V ms)"
    and p1: "\<forall>j < length (V ms). (V ms1 ! j, yC ms1 ! j)
              = (if 0 \<le> j \<and> j < 0 + length (tl (atoms cfg))
                 then nudge cfg r (tl (atoms cfg) ! (j - 0)) (V ms ! j, yC ms ! j) v
                 else (V ms ! j, yC ms ! j))"
    by blast
  have "length (atoms cfg) = length (V ms1) + 1" "length (yC ms1) = length (V ms1)"
    using Cons.prems l1 by simp_all
  from Cons.IH[OF this]
  obtain ms2 where s2: "update_targets cfg r ms1 vs = Inr ms2"
    and l2: "length (V ms2) = length (V ms1)" "length (yC ms2) = length (V ms1)"
    and p2: "\<forall>j < length (V ms1). (V ms2 ! j, yC ms2 ! j)
              = foldl (nudge cfg r (atoms cfg ! (j + 1))) (V ms1 ! j, yC ms1 ! j) vs"
    by blast
  have "\<forall>j < length (V ms). (V ms2 ! j, yC ms2 ! j)
              = foldl (nudge cfg r (atoms cfg ! (j + 1))) (V ms ! j, yC ms ! j) (v # vs)"
  proof (intro allI impI)
    fix j assume j: "j < length (V ms)"
    then have "tl (atoms cfg) ! j = atoms cfg ! (j + 1)"
      using Cons.prems(1) by (simp add: nth_tl)
    then show "(V ms2 ! j, yC ms2 ! j)
              = foldl (nudge cfg r (atoms cfg ! (j + 1))) (V ms ! j, yC ms ! j) (v # vs)"
      using p1 p2 j l1 Cons.prems(1) by simp
  qed
  then show ?case using s1 s2 l1 l2 by simp
qed

subsection \<open>The first update of a fresh table, evaluated\<close>

lemma first_update_sup_q:
  "sup_q linear_config fresh_table \<lparr>state_y = 2, state_x = 0\<rparr> = Inr [0, 0, 0, 0]"
  by (simp add: sup_q_def linear_config_def fresh_table_def ActionValueFunction_init_def
      MarkovState_init_def grid_world_def Q_get_def Q_index_def np_index_def np_max_def
      yc_to_var_def np_diff_def upt_rec numeral_eq_Suc)

lemma first_update_index:
  "Q_index fresh_table 3 0 0 = Inr (3, 0, 0)"
  by (simp add: fresh_table_def ActionValueFunction_init_def grid_world_def Q_index_def np_index_def)

lemma first_update_entry:
  "Q fresh_table (3, 0, 0) = \<lparr>V = [0, 0, 0, 0], yC = [0, 0, 0, 0]\<rparr>"
  by (simp add: fresh_table_def ActionValueFunction_init_def MarkovState_init_def
      linear_config_def numeral_eq_Suc)

lemma first_update_pass:
  "update_atoms linear_config (- 1) 0 \<lparr>V = [0, 0, 0, 0], yC = [0, 0, 0, 0]\<rparr>
     (enumerate 0 (tl (atoms linear_config)))
   = Inr \<lparr>V = [- 3/10, - 1/10, - 1/30, 0], yC = [- 1/10, - 1/10, - 1/10, - 1/10]\<rparr>"
  by (simp add: linear_config_def atom_step_def)

lemma first_update_cell:
  "update_targets linear_config (- 1) \<lparr>V = [0, 0, 0, 0], yC = [0, 0, 0, 0]\<rparr> [0, 0, 0, 0]
   = Inr \<lparr>V = [- 6/5, - 2/5, - 2/15, 0],
          yC = [- 8707/40000, - 6317/20000, - 13569/40000, - 3439/10000]\<rparr>"
  by (simp add: linear_config_def atom_step_def)

lemma first_update:
  "update linear_config fresh_table \<lparr>state_y = 3, state_x = 0\<rparr> 0 \<lparr>state_y = 2, state_x = 0\<rparr> (- 1)
   = Inr (fresh_table\<lparr>Q := (Q fresh_table)((3, 0, 0) :=
       \<lparr>V = [- 6/5, - 2/5, - 2/15, 0],
        yC = [- 8707/40000, - 6317/20000, - 13569/40000, - 3439/10000]\<rparr>)\<rparr>)"
proof -
  have a: "np_get [- 6/5, - 2/5, - 2/15, 0::real] 0 = Inr (- 6/5)"
    by (simp add: np_get_first)
  have b: "np_get [- 6/5, - 2/5, - 2/15, 0::real] (- 1) = Inr 0"
    by (simp add: np_get_last)
  show ?thesis
    unfolding update_def
    by (simp only: State.simps MarkovState.simps first_update_sup_q first_update_index
        first_update_entry first_update_cell bind_err_Inr a b) simp
qed

lemma once_per_atom_value:
  "update_once_per_atom linear_config (- 1) 0 \<lparr>V = [0, 0, 0, 0], yC = [0, 0, 0, 0]\<rparr>
   = \<lparr>V = [- 3/10, - 1/10, - 1/30, 0], yC = [- 1/10, - 1/10, - 1/10, - 1/10]\<rparr>"
  by (simp add: update_once_per_atom_def nudge_def linear_config_def)

subsection \<open>Further evaluations\<close>

lemma skewed_sup_q:
  "sup_q linear_config skewed_table \<lparr>state_y = 2, state_x = 0\<rparr> = Inr [0, 0, 0, 0]"
  by (simp add: sup_q_def linear_config_def skewed_table_def fresh_table_def
      ActionValueFunction_init_def MarkovState_init_def grid_world_def Q_get_def Q_index_def
      np_index_def np_max_def yc_to_var_def np_diff_def upt_rec numeral_eq_Suc)

lemma skewed_index:
  "Q_index skewed_table 3 0 0 = Inr (3, 0, 0)"
  by (simp add: skewed_table_def fresh_table_def ActionValueFunction_init_def grid_world_def
      Q_index_def np_index_def)

lemma skewed_entry:
  "Q skewed_table (3, 0, 0) = \<lparr>V = [1/2, 0, 0, 0], yC = [0, 0, 0, 0]\<rparr>"
  by (simp add: skewed_table_def)

lemma skewed_cell:
  "update_targets linear_config 1 \<lparr>V = [1/2, 0, 0, 0], yC = [0, 0, 0, 0]\<rparr> [0, 0, 0, 0]
   = Inr \<lparr>V = [9/10, 2/5, 2/5, 2/5], yC = [4561/80000, 561/20000, 1683/40000, 561/10000]\<rparr>"
  by (simp add: linear_config_def atom_step_def)

lemma var_alpha_index:
  "find_break (atoms linear_config) (1/10) 0 [0..<length (atoms linear_config)] = 1"
  by (simp add: linear_config_def upt_rec numeral_eq_Suc)

subsection \<open>The supremum over actions\<close>

lemma envelope_round_trip:
  assumes "sorted_wrt (<) ats" and "length ats = length yc + 1"
  shows "cvar_envelope ats (yc_to_var ats yc) = yc"
proof -
  have "\<forall>m \<in> set (np_diff ats). m \<noteq> 0"
    using np_diff_pos[OF assms(1)] by fastforce
  moreover have "length yc \<le> length (np_diff ats)"
    using assms(2) by simp
  ultimately show ?thesis
    unfolding cvar_envelope_def yc_to_var_def by (rule cumsum_finite_diff)
qed

lemma sup_q_column:
  assumes "\<forall>a \<in> set acts. Q_get avf r c a = Inr (cell a)"
    and "acts \<noteq> []"
    and "\<forall>a \<in> set acts. i < length (yC (cell a))"
  shows "bind_err (sequence_err (map (\<lambda>a. bind_err (Q_get avf r c a) (\<lambda>ms. np_get (yC ms) (int i))) acts)) np_max
         = Inr (Max ((\<lambda>a. yC (cell a) ! i) ` set acts))"
proof -
  have "\<forall>a \<in> set acts. bind_err (Q_get avf r c a) (\<lambda>ms. np_get (yC ms) (int i)) = Inr (yC (cell a) ! i)"
    using assms(1,3) by simp
  then have "sequence_err (map (\<lambda>a. bind_err (Q_get avf r c a) (\<lambda>ms. np_get (yC ms) (int i))) acts)
             = Inr (map (\<lambda>a. yC (cell a) ! i) acts)"
    by (rule sequence_err_map_Inr)
  moreover have "np_max (map (\<lambda>a. yC (cell a) ! i) acts) = Inr (Max (set (map (\<lambda>a. yC (cell a) ! i) acts)))"
    using assms(2) by (intro np_max_Max) simp
  ultimately show ?thesis by simp
qed

subsection \<open>An episode without randomness, evaluated\<close>

lemma eps_greedy_calm:
  "eps_greedy calm_env a (eps linear_config) acts g = Inr (a, g)"
  by (simp add: eps_greedy_def calm_env_def linear_config_def)

lemma fresh_next_action_alpha:
  "next_action_alpha linear_config fresh_table \<lparr>state_y = 3, state_x = 0\<rparr> (1/10) = Inr 0"
  by (simp add: next_action_alpha_def yc_alpha_def linear_config_def fresh_table_def
      ActionValueFunction_init_def MarkovState_init_def grid_world_def Q_get_def Q_index_def
      np_index_def np_get_def np_argmax_def upt_rec numeral_eq_Suc)

lemma fresh_next_action_s:
  "next_action_s linear_config fresh_table \<lparr>state_y = 3, state_x = 0\<rparr> 0 = Inr 0"
  by (simp add: next_action_s_def e_min_s_def atom_p_def np_diff_def linear_config_def
      fresh_table_def ActionValueFunction_init_def MarkovState_init_def grid_world_def
      Q_get_def Q_index_def np_index_def np_argmax_def numeral_eq_Suc)

lemma fresh_var_alpha:
  "var_alpha linear_config fresh_table \<lparr>state_y = 3, state_x = 0\<rparr> 0 (1/10) = Inr 0"
proof -
  have other: "Q_get fresh_table 0 3 0 = Inr (MarkovState_init linear_config)"
    by (simp add: Q_get_def Q_index_def np_index_def fresh_table_def
        ActionValueFunction_init_def grid_world_def)
  have zero: "np_get (V (MarkovState_init linear_config)) (int 1 - 1) = Inr 0"
    by (simp add: MarkovState_init_def linear_config_def np_get_first)
  show ?thesis
    unfolding var_alpha_def Let_def var_alpha_index
    by (simp only: State.simps other bind_err_Inr zero)
qed

lemma calm_episode_init:
  "episode_init linear_config calm_env fresh_table (1/10) ()
   = Inr (\<lparr>state_y = 3, state_x = 0\<rparr>, 0, ())"
proof -
  have i: "initial_state (world fresh_table) = \<lparr>state_y = 3, state_x = 0\<rparr>"
    by (simp add: fresh_table_def ActionValueFunction_init_def grid_world_def)
  show ?thesis
    unfolding episode_init_def Let_def i fresh_next_action_alpha bind_err_Inr eps_greedy_calm
    by (simp add: fresh_var_alpha)
qed

lemma calm_episode_body:
  "episode_body linear_config calm_env fresh_table \<lparr>state_y = 3, state_x = 0\<rparr> 0 ()
   = Inr (fresh_table\<lparr>Q := (Q fresh_table)((3, 0, 0) :=
            \<lparr>V = [- 6/5, - 2/5, - 2/15, 0],
             yC = [- 8707/40000, - 6317/20000, - 13569/40000, - 3439/10000]\<rparr>)\<rparr>,
          \<lparr>state_y = 2, state_x = 0\<rparr>, 20/19, ())"
proof -
  have t: "sample_transition calm_env \<lparr>state_y = 3, state_x = 0\<rparr> (int 0) ()
           = ((\<lparr>state_y = 2, state_x = 0\<rparr>, - 1), ())"
    by (simp add: calm_env_def)
  have u: "update linear_config fresh_table \<lparr>state_y = 3, state_x = 0\<rparr> (int 0)
             \<lparr>state_y = 2, state_x = 0\<rparr> (- 1)
           = Inr (fresh_table\<lparr>Q := (Q fresh_table)((3, 0, 0) :=
               \<lparr>V = [- 6/5, - 2/5, - 2/15, 0],
                yC = [- 8707/40000, - 6317/20000, - 13569/40000, - 3439/10000]\<rparr>)\<rparr>)"
    using first_update by simp
  have g: "(0 - (- 1)) / gamma linear_config = 20/19"
    by (simp add: linear_config_def)
  show ?thesis
    unfolding episode_body_def fresh_next_action_s bind_err_Inr eps_greedy_calm
    by (simp only: prod.case t u bind_err_Inr g)
qed

subsection \<open>The cell that \<open>var_alpha\<close> reads\<close>

lemma var_alpha_cell:
  assumes "sorted (atoms cfg)" and "1 \<le> i" and "i < length (atoms cfg)"
    and "atoms cfg ! (i - 1) \<le> alpha" and "alpha < atoms cfg ! i"
  shows "var_alpha cfg avf x a alpha
         = bind_err (Q_get avf (state_x x) (state_y x) a) (\<lambda>ms. np_get (V ms) (int (i - 1)))"
proof -
  have "\<forall>k. 0 \<le> k \<and> k < i \<longrightarrow> \<not> alpha < atoms cfg ! k"
  proof (intro allI impI)
    fix k assume "0 \<le> k \<and> k < i"
    then have "atoms cfg ! k \<le> atoms cfg ! (i - 1)"
      using assms(1,3) by (intro sorted_nth_mono) auto
    then show "\<not> alpha < atoms cfg ! k" using assms(4) by simp
  qed
  then have fb: "find_break (atoms cfg) alpha 0 [0..<length (atoms cfg)] = i"
    using assms(3,5) by (intro find_break_first) auto
  have i1: "int i - 1 = int (i - 1)" using assms(2) by simp
  show ?thesis
    unfolding var_alpha_def Let_def fb i1 by (rule refl)
qed

section \<open>The claims\<close>

text \<open>
  C1. One atom-target step of \<open>update\<close>, with learning rate \<open>beta\<close> and discount
  \<open>gamma\<close>: if the stored quantile \<open>V[i]\<close> is at least the target \<open>r + gamma*v\<close>, it
  grows by \<open>beta*(1 - 1/atom)\<close>, otherwise by \<open>beta\<close>; and \<open>yC[i]\<close> becomes
  \<open>(1-beta)*yC[i] + beta*(atom*V[i] + min(0, (r + gamma*v) - V[i]))\<close>, where the
  \<open>V[i]\<close> and \<open>yC[i]\<close> on the right are the values read before the step writes. The
  index is one of the MarkovState and the atom boundary is not 0.
\<close>

theorem atom_step_rule:
  assumes "i < length (V ms)" and "i < length (yC ms)" and "atom \<noteq> 0"
  shows "\<exists>ms'. atom_step cfg r v ms (i, atom) = Inr ms' \<and>
           V ms' ! i = (if V ms ! i \<ge> r + gamma cfg * v
                        then V ms ! i + beta cfg * (1 - 1 / atom)
                        else V ms ! i + beta cfg) \<and>
           yC ms' ! i = (1 - beta cfg) * (yC ms ! i)
                        + beta cfg * (atom * (V ms ! i) + min 0 ((r + gamma cfg * v) - V ms ! i))"
  using assms by (simp add: atom_step_def)

theorem atom_step_rule_witness:
  "(0::nat) < length (V (MarkovState_init linear_config)) \<and>
   (0::nat) < length (yC (MarkovState_init linear_config)) \<and> (1/4 :: real) \<noteq> 0 \<and>
   (\<exists>ms'. atom_step linear_config (- 1) 0 (MarkovState_init linear_config) (0, 1/4) = Inr ms' \<and>
      V ms' ! 0 = - 3/10 \<and> yC ms' ! 0 = - 1/10)"
  using atom_step_rule [where i = 0 and ms = "MarkovState_init linear_config"
      and cfg = linear_config and r = "- 1" and v = 0 and atom = "1/4"]
  by (simp add: MarkovState_init_def linear_config_def)

text \<open>
  C4. Over a strictly increasing atom grid (so every mass is nonzero) and for a \<open>yC\<close>
  sequence of length \<open>K\<close>, \<open>yc_to_var\<close> is finite differencing,
  \<open>V[i] = (yC[i] - yC[i-1]) / mass[i]\<close> with \<open>yC[-1]\<close> taken as 0, and re-deriving \<open>yC\<close>
  as the cumulative sum of \<open>mass[i] * V[i]\<close> returns the original sequence: \<open>yc_to_var\<close>
  is a right inverse of the cumulative mass-weighted sum.
\<close>

theorem yc_to_var_round_trip:
  assumes "sorted_wrt (<) ats" and "length ats = length yc + 1"
  shows "cvar_envelope ats (yc_to_var ats yc) = yc \<and>
         (\<forall>i<length yc. yc_to_var ats yc ! i
            = (yc ! i - (if i = 0 then 0 else yc ! (i - 1))) / (ats ! (i + 1) - ats ! i))"
proof
  have "\<forall>m \<in> set (np_diff ats). m \<noteq> 0"
    using np_diff_pos[OF assms(1)] by fastforce
  moreover have "length yc \<le> length (np_diff ats)"
    using assms(2) by simp
  ultimately show "cvar_envelope ats (yc_to_var ats yc) = yc"
    unfolding cvar_envelope_def yc_to_var_def by (rule cumsum_finite_diff)
next
  show "\<forall>i<length yc. yc_to_var ats yc ! i
          = (yc ! i - (if i = 0 then 0 else yc ! (i - 1))) / (ats ! (i + 1) - ats ! i)"
    using assms(2) by (simp add: yc_to_var_def finite_diff_nth np_diff_nth)
qed

theorem yc_to_var_round_trip_witness:
  "sorted_wrt (<) (atoms linear_config) \<and>
   length (atoms linear_config) = length [1, 3, 4, 8 :: real] + 1 \<and>
   yc_to_var (atoms linear_config) [1, 3, 4, 8] = [4, 8, 4, 16] \<and>
   cvar_envelope (atoms linear_config) [4, 8, 4, 16] = [1, 3, 4, 8]"
proof -
  have s: "sorted_wrt (<) (atoms linear_config)"
    by (simp add: linear_config_def)
  have l: "length (atoms linear_config) = length [1, 3, 4, 8 :: real] + 1"
    by (simp add: linear_config_def)
  have v: "yc_to_var (atoms linear_config) [1, 3, 4, 8] = [4, 8, 4, 16]"
    by (simp add: yc_to_var_def np_diff_def linear_config_def)
  show ?thesis
    using yc_to_var_round_trip [OF s l] s l v by simp
qed

text \<open>
  C10. Over a strictly increasing atom grid, \<open>expected_value()\<close> equals the last stored
  CVaR entry \<open>yC[K-1]\<close>: the mass-weighted dot product of the quantiles derived from
  \<open>yC\<close> telescopes. In particular it does not depend on the stored \<open>V\<close> sequence.
\<close>

theorem expected_value_last:
  assumes "sorted_wrt (<) (atoms cfg)"
    and "length (atoms cfg) = length (yC ms) + 1"
    and "yC ms \<noteq> []"
  shows "expected_value cfg ms = Inr (last (yC ms)) \<and>
         expected_value cfg (ms\<lparr>V := V'\<rparr>) = expected_value cfg ms"
proof
  have nz: "\<forall>m \<in> set (np_diff (atoms cfg)). m \<noteq> 0"
    using np_diff_pos[OF assms(1)] by fastforce
  have len: "length (yC ms) \<le> length (np_diff (atoms cfg))"
    using assms(2) by simp
  have "length (atom_p cfg) = length (dist_from_yc cfg ms)"
    using assms(2) by (simp add: atom_p_def dist_from_yc_def yc_to_var_def)
  then show "expected_value cfg ms = Inr (last (yC ms))"
    using sum_finite_diff[OF nz len assms(3), of 0]
    by (simp add: expected_value_def np_dot_def atom_p_def dist_from_yc_def yc_to_var_def)
next
  show "expected_value cfg (ms\<lparr>V := V'\<rparr>) = expected_value cfg ms"
    by (simp add: expected_value_def dist_from_yc_def)
qed

theorem expected_value_last_witness:
  "sorted_wrt (<) (atoms linear_config) \<and>
   length (atoms linear_config) = length (yC \<lparr>V = [0, 0, 0, 0], yC = [1, 3, 4, 8]\<rparr>) + 1 \<and>
   yC \<lparr>V = [0, 0, 0, 0], yC = [1, 3, 4, 8]\<rparr> \<noteq> [] \<and>
   expected_value linear_config \<lparr>V = [0, 0, 0, 0], yC = [1, 3, 4, 8]\<rparr> = Inr 8 \<and>
   expected_value linear_config \<lparr>V = [5, 6, 7, 9], yC = [1, 3, 4, 8]\<rparr> = Inr 8"
proof -
  have s: "sorted_wrt (<) (atoms linear_config)"
    by (simp add: linear_config_def)
  have l: "length (atoms linear_config) = length (yC \<lparr>V = [0, 0, 0, 0], yC = [1, 3, 4, 8]\<rparr>) + 1"
    by (simp add: linear_config_def)
  have n: "yC \<lparr>V = [0, 0, 0, 0], yC = [1, 3, 4, 8]\<rparr> \<noteq> []"
    by simp
  show ?thesis
    using expected_value_last [OF s l n, of "[5, 6, 7, 9]"] s l by simp
qed

text \<open>
  C7. For a MarkovState whose \<open>V\<close> is non-decreasing and atom masses that are
  non-negative, \<open>e_min_s(s)\<close> is non-increasing in \<open>s\<close>, and it is 0 whenever \<open>s\<close> is
  below (or at) the minimum quantile value \<open>V[0]\<close>. Its value is the sum of
  \<open>mass[i]*(V[i]-s)\<close> over the atoms before the first one at or above \<open>s\<close>, which for a
  sorted \<open>V\<close> are all the atoms with \<open>V[i] < s\<close>.
\<close>

theorem e_min_s_nonincreasing:
  assumes "sorted (V ms)" and "\<forall>p \<in> set (atom_p cfg). 0 \<le> p"
  shows "(s1 \<le> s2 \<longrightarrow> e_min_s cfg ms s2 \<le> e_min_s cfg ms s1) \<and>
         (V ms \<noteq> [] \<and> s \<le> V ms ! 0 \<longrightarrow> e_min_s cfg ms s = 0) \<and>
         e_min_s cfg ms s = sum_list (map (\<lambda>(p, v). p * (v - s))
            (takeWhile (\<lambda>(p, v). v < s) (zip (atom_p cfg) (V ms)))) \<and>
         e_min_s cfg ms s = sum_list (map (\<lambda>(p, v). p * (v - s))
            (filter (\<lambda>(p, v). v < s) (zip (atom_p cfg) (V ms))))"
proof (intro conjI impI)
  have nn: "\<forall>p \<in> fst ` set (zip (atom_p cfg) (V ms)). 0 \<le> p"
    using assms(2) by (auto dest: set_zip_leftD)
  show "e_min_s cfg ms s2 \<le> e_min_s cfg ms s1" if "s1 \<le> s2"
    using below_sum_antimono[OF nn that] by (simp add: e_min_s_def e_min_loop_sum)
  show "e_min_s cfg ms s = 0" if "V ms \<noteq> [] \<and> s \<le> V ms ! 0"
  proof (cases "V ms")
    case Nil
    then show ?thesis using that by simp
  next
    case (Cons v vs)
    then show ?thesis using that by (cases "atom_p cfg") (simp_all add: e_min_s_def)
  qed
  show tw: "e_min_s cfg ms s = sum_list (map (\<lambda>(p, v). p * (v - s))
            (takeWhile (\<lambda>(p, v). v < s) (zip (atom_p cfg) (V ms))))"
    by (simp add: e_min_s_def e_min_loop_sum)
  show "e_min_s cfg ms s = sum_list (map (\<lambda>(p, v). p * (v - s))
            (filter (\<lambda>(p, v). v < s) (zip (atom_p cfg) (V ms))))"
    using tw by (simp add: takeWhile_filter_sorted[OF assms(1)])
qed


theorem e_min_s_nonincreasing_witness:
  "sorted (V sample_state) \<and>
   atom_p linear_config = [1/4, 1/4, 1/4, 1/4] \<and>
   e_min_s linear_config sample_state 5 \<le> e_min_s linear_config sample_state (5/2) \<and>
   e_min_s linear_config sample_state (5/2) = - 1/2 \<and>
   e_min_s linear_config sample_state 5 = - 5/2 \<and>
   e_min_s linear_config sample_state 0 = 0"
proof -
  have s: "sorted (V sample_state)"
    by (simp add: sample_state_def)
  have p: "atom_p linear_config = [1/4, 1/4, 1/4, 1/4]"
    by (simp add: atom_p_def np_diff_def linear_config_def)
  have nn: "\<forall>p \<in> set (atom_p linear_config). 0 \<le> p"
    by (simp add: p)
  have v1: "e_min_s linear_config sample_state (5/2) = - 1/2"
    by (simp add: e_min_s_def p sample_state_def)
  have v2: "e_min_s linear_config sample_state 5 = - 5/2"
    by (simp add: e_min_s_def p sample_state_def)
  show ?thesis
    using e_min_s_nonincreasing [OF s nn, of "5/2" 5 0] s p v1 v2
    by (simp add: sample_state_def)
qed

text \<open>
  C9. For \<open>alpha\<close> in (0,1), over a sorted atom grid from 0 to 1, \<open>yc_alpha(alpha)\<close> is the
  piecewise-linear interpolation of the CVaR curve through the points
  \<open>(atoms[j], yC[j-1])\<close>, the first segment starting at (0,0): \<open>alpha\<close> lies in exactly
  one interval \<open>[atoms[i-1], atoms[i])\<close>; for \<open>i = 1\<close> the result is
  \<open>(alpha/atoms[1]) * yC[0]\<close>, and for \<open>i \<ge> 2\<close> it is
  \<open>yC[i-2] + ((alpha - atoms[i-1])/(atoms[i] - atoms[i-1])) * (yC[i-1] - yC[i-2])\<close>.
\<close>

theorem yc_alpha_interpolation:
  assumes "sorted (atoms cfg)" and "atoms cfg ! 0 = 0" and "last (atoms cfg) = 1"
    and "length (atoms cfg) = length (yC ms) + 1"
    and "0 < alpha" and "alpha < 1"
  shows "(\<exists>i. 1 \<le> i \<and> i < length (atoms cfg) \<and>
              atoms cfg ! (i - 1) \<le> alpha \<and> alpha < atoms cfg ! i) \<and>
         (\<forall>i. 1 \<le> i \<and> i < length (atoms cfg) \<and>
              atoms cfg ! (i - 1) \<le> alpha \<and> alpha < atoms cfg ! i \<longrightarrow>
            yc_alpha cfg ms alpha = Inr
              (if i = 1 then (alpha / atoms cfg ! 1) * yC ms ! 0
               else yC ms ! (i - 2)
                    + ((alpha - atoms cfg ! (i - 1)) / (atoms cfg ! i - atoms cfg ! (i - 1)))
                      * (yC ms ! (i - 1) - yC ms ! (i - 2))))"
proof
  have "atoms cfg \<noteq> []" using assms(4) by auto
  then show "\<exists>i. 1 \<le> i \<and> i < length (atoms cfg) \<and>
              atoms cfg ! (i - 1) \<le> alpha \<and> alpha < atoms cfg ! i"
    using assms(2,3,5,6) by (intro bracket_exists) simp_all
next
  show "\<forall>i. 1 \<le> i \<and> i < length (atoms cfg) \<and>
              atoms cfg ! (i - 1) \<le> alpha \<and> alpha < atoms cfg ! i \<longrightarrow>
            yc_alpha cfg ms alpha = Inr
              (if i = 1 then (alpha / atoms cfg ! 1) * yC ms ! 0
               else yC ms ! (i - 2)
                    + ((alpha - atoms cfg ! (i - 1)) / (atoms cfg ! i - atoms cfg ! (i - 1)))
                      * (yC ms ! (i - 1) - yC ms ! (i - 2)))"
    using yc_alpha_at[OF assms(1,2,4)] by blast
qed

theorem yc_alpha_interpolation_witness:
  "sorted (atoms linear_config) \<and> atoms linear_config ! 0 = 0 \<and>
   last (atoms linear_config) = 1 \<and>
   length (atoms linear_config) = length (yC sample_state) + 1 \<and>
   (0::real) < 3/8 \<and> (3/8::real) < 1 \<and>
   yc_alpha linear_config sample_state (3/8) = Inr (1/2)"
proof -
  have h1: "sorted (atoms linear_config)" by (simp add: linear_config_def)
  have h2: "atoms linear_config ! 0 = 0" by (simp add: linear_config_def)
  have h3: "last (atoms linear_config) = 1" by (simp add: linear_config_def)
  have h4: "length (atoms linear_config) = length (yC sample_state) + 1"
    by (simp add: linear_config_def sample_state_def)
  have h5: "(0::real) < 3/8" by simp
  have h6: "(3/8::real) < 1" by simp
  have br: "(1::nat) \<le> 2 \<and> 2 < length (atoms linear_config) \<and>
            atoms linear_config ! (2 - 1) \<le> 3/8 \<and> 3/8 < atoms linear_config ! 2"
    by (simp add: linear_config_def)
  from yc_alpha_interpolation [OF h1 h2 h3 h4 h5 h6] br
  have "yc_alpha linear_config sample_state (3/8) = Inr
          (if (2::nat) = 1 then ((3/8) / atoms linear_config ! 1) * yC sample_state ! 0
           else yC sample_state ! (2 - 2)
                + ((3/8 - atoms linear_config ! (2 - 1))
                    / (atoms linear_config ! 2 - atoms linear_config ! (2 - 1)))
                  * (yC sample_state ! (2 - 1) - yC sample_state ! (2 - 2)))"
    by blast
  then have "yc_alpha linear_config sample_state (3/8) = Inr (1/2)"
    by (simp add: linear_config_def sample_state_def)
  then show ?thesis using h1 h2 h3 h4 by simp
qed

text \<open>
  C2, as amended. In a call \<open>update(x, a, x_, r)\<close> the step of an atom runs once for every
  candidate value \<open>v\<close> of \<open>sup_q(x_)\<close>, the distribution being computed once at entry. For
  each atom \<open>i\<close> the steps form a chain on the pair \<open>(V[i], yC[i])\<close>: the first reads the
  values held at entry, every later one the values its predecessor wrote. No step reads
  or writes the pair of another atom, and no other cell of the table changes. This is
  stated for a call that returns, on a MarkovState with one entry per atom interval and
  atom boundaries other than 0 after the first; \<open>nudge\<close> is the step on one pair.
\<close>

theorem update_runs_per_candidate:
  assumes "sup_q cfg avf x_next = Inr V_x"
    and "Q_index avf (state_y x) (state_x x) a = Inr ix"
    and "length (atoms cfg) = length (V (Q avf ix)) + 1"
    and "length (yC (Q avf ix)) = length (V (Q avf ix))"
    and "0 \<notin> set (tl (atoms cfg))"
    and "update cfg avf x a x_next r = Inr avf'"
  shows "(\<forall>i < length (V (Q avf ix)).
            (V (Q avf' ix) ! i, yC (Q avf' ix) ! i)
              = foldl (nudge cfg r (atoms cfg ! (i + 1))) (V (Q avf ix) ! i, yC (Q avf ix) ! i) V_x) \<and>
         (\<forall>ix'. ix' \<noteq> ix \<longrightarrow> Q avf' ix' = Q avf ix') \<and>
         world avf' = world avf"
proof -
  from update_targets_pairs[OF assms(3,4), of r V_x]
  obtain ms where t: "update_targets cfg r (Q avf ix) V_x = Inr ms"
    and p: "\<forall>j < length (V (Q avf ix)). (V ms ! j, yC ms ! j)
              = foldl (nudge cfg r (atoms cfg ! (j + 1))) (V (Q avf ix) ! j, yC (Q avf ix) ! j) V_x"
    by blast
  from assms(6) have "avf' = avf\<lparr>Q := (Q avf)(ix := ms)\<rparr>"
    unfolding update_def
    by (simp add: assms(1,2) t np_get_first np_get_last split: if_splits)
  then show ?thesis using p by simp
qed

theorem update_runs_per_candidate_witness:
  "sup_q linear_config fresh_table \<lparr>state_y = 2, state_x = 0\<rparr> = Inr [0, 0, 0, 0] \<and>
   Q_index fresh_table 3 0 0 = Inr (3, 0, 0) \<and>
   length (atoms linear_config) = length (V (Q fresh_table (3, 0, 0))) + 1 \<and>
   length (yC (Q fresh_table (3, 0, 0))) = length (V (Q fresh_table (3, 0, 0))) \<and>
   0 \<notin> set (tl (atoms linear_config)) \<and>
   (\<exists>avf'. update linear_config fresh_table \<lparr>state_y = 3, state_x = 0\<rparr> 0
             \<lparr>state_y = 2, state_x = 0\<rparr> (- 1) = Inr avf' \<and>
      (V (Q avf' (3, 0, 0)) ! 0, yC (Q avf' (3, 0, 0)) ! 0)
        = foldl (nudge linear_config (- 1) (1/4)) (0, 0) [0, 0, 0, 0] \<and>
      foldl (nudge linear_config (- 1) (1/4)) (0, 0) [0, 0, 0, 0] = (- 6/5, - 8707/40000))"
proof -
  let ?x = "\<lparr>state_y = 3, state_x = 0\<rparr>" and ?x' = "\<lparr>state_y = 2, state_x = 0\<rparr>"
  let ?avf' = "fresh_table\<lparr>Q := (Q fresh_table)((3, 0, 0) :=
       \<lparr>V = [- 6/5, - 2/5, - 2/15, 0],
        yC = [- 8707/40000, - 6317/20000, - 13569/40000, - 3439/10000]\<rparr>)\<rparr>"
  have h1: "sup_q linear_config fresh_table ?x' = Inr [0, 0, 0, 0]"
    by (rule first_update_sup_q)
  have h2: "Q_index fresh_table (state_y ?x) (state_x ?x) 0 = Inr (3, 0, 0)"
    by (simp add: first_update_index)
  have h3: "length (atoms linear_config) = length (V (Q fresh_table (3, 0, 0))) + 1"
    by (simp add: first_update_entry linear_config_def)
  have h4: "length (yC (Q fresh_table (3, 0, 0))) = length (V (Q fresh_table (3, 0, 0)))"
    by (simp add: first_update_entry)
  have h5: "0 \<notin> set (tl (atoms linear_config))"
    by (simp add: linear_config_def)
  have h6: "update linear_config fresh_table ?x 0 ?x' (- 1) = Inr ?avf'"
    by (rule first_update)
  have n: "foldl (nudge linear_config (- 1) (1/4)) (0, 0) [0, 0, 0, 0] = (- 6/5, - 8707/40000)"
    by (simp add: nudge_def linear_config_def)
  have z: "0 < length (V (Q fresh_table (3, 0, 0)))"
    by (simp add: first_update_entry)
  have a4: "atoms linear_config ! (0 + 1) = 1/4"
    by (simp add: linear_config_def)
  from update_runs_per_candidate [OF h1 h2 h3 h4 h5 h6] z
  have "(V (Q ?avf' (3, 0, 0)) ! 0, yC (Q ?avf' (3, 0, 0)) ! 0)
        = foldl (nudge linear_config (- 1) (atoms linear_config ! (0 + 1)))
            (V (Q fresh_table (3, 0, 0)) ! 0, yC (Q fresh_table (3, 0, 0)) ! 0) [0, 0, 0, 0]"
    by blast
  then have "(V (Q ?avf' (3, 0, 0)) ! 0, yC (Q ?avf' (3, 0, 0)) ! 0)
        = foldl (nudge linear_config (- 1) (1/4)) (0, 0) [0, 0, 0, 0]"
    unfolding a4 first_update_entry by simp
  then show ?thesis using h1 h2 h3 h4 h5 h6 n by (simp add: first_update_index)
qed

text \<open>
  C2 as stated fails: on a fresh table with reward \<open>-1\<close> every candidate target is \<open>-1\<close>,
  and a call that ran the step once per atom from the entry values would leave
  \<open>V[0] = -3/10\<close>; the call leaves \<open>V[0] = -6/5\<close>, four steps later.
\<close>

theorem update_once_per_atom_counterexample:
  "sup_q linear_config fresh_table \<lparr>state_y = 2, state_x = 0\<rparr> = Inr [0, 0, 0, 0] \<and>
   bind_err (update linear_config fresh_table \<lparr>state_y = 3, state_x = 0\<rparr> 0
               \<lparr>state_y = 2, state_x = 0\<rparr> (- 1)) (\<lambda>avf'. Inr (Q avf' (3, 0, 0)))
     = Inr \<lparr>V = [- 6/5, - 2/5, - 2/15, 0],
            yC = [- 8707/40000, - 6317/20000, - 13569/40000, - 3439/10000]\<rparr> \<and>
   update_once_per_atom linear_config (- 1) 0 (Q fresh_table (3, 0, 0))
     = \<lparr>V = [- 3/10, - 1/10, - 1/30, 0], yC = [- 1/10, - 1/10, - 1/10, - 1/10]\<rparr> \<and>
   bind_err (update linear_config fresh_table \<lparr>state_y = 3, state_x = 0\<rparr> 0
               \<lparr>state_y = 2, state_x = 0\<rparr> (- 1)) (\<lambda>avf'. Inr (Q avf' (3, 0, 0)))
     \<noteq> Inr (update_once_per_atom linear_config (- 1) 0 (Q fresh_table (3, 0, 0)))"
  by (simp add: first_update first_update_sup_q first_update_entry once_per_atom_value)

text \<open>
  C8. \<open>update\<close> raises AssertionError exactly when the loops have completed and the
  updated MarkovState of \<open>(x, a)\<close> has \<open>V[0] > V[-1]\<close>; whenever the call returns, that
  MarkovState satisfies \<open>V[0] \<le> V[-1]\<close>. The atom boundaries after the first are not 0.
\<close>

theorem update_assertion:
  assumes "0 \<notin> set (tl (atoms cfg))"
  shows "(update cfg avf x a x_next r = Inl AssertionError \<longleftrightarrow>
      (\<exists>V_x ix ms. sup_q cfg avf x_next = Inr V_x \<and>
         Q_index avf (state_y x) (state_x x) a = Inr ix \<and>
         update_targets cfg r (Q avf ix) V_x = Inr ms \<and>
         V ms \<noteq> [] \<and> V ms ! 0 > last (V ms))) \<and>
   (\<forall>avf'. update cfg avf x a x_next r = Inr avf' \<longrightarrow>
      (\<exists>ms. Q_get avf' (state_y x) (state_x x) a = Inr ms \<and>
         V ms \<noteq> [] \<and> V ms ! 0 \<le> last (V ms)))"
proof (intro conjI iffI allI impI)
  assume fail: "update cfg avf x a x_next r = Inl AssertionError"
  obtain V_x where s: "sup_q cfg avf x_next = Inr V_x"
    using fail sup_q_Inl[of cfg avf x_next]
    by (cases "sup_q cfg avf x_next") (auto simp: update_def)
  obtain ix where i: "Q_index avf (state_y x) (state_x x) a = Inr ix"
    using fail s Q_index_Inl[of avf "state_y x" "state_x x" a]
    by (cases "Q_index avf (state_y x) (state_x x) a") (auto simp: update_def)
  obtain ms where t: "update_targets cfg r (Q avf ix) V_x = Inr ms"
    using fail s i update_targets_Inl[of cfg r "Q avf ix" V_x]
    by (cases "update_targets cfg r (Q avf ix) V_x") (auto simp: update_def)
  have "V ms \<noteq> [] \<and> V ms ! 0 > last (V ms)"
    using fail s i t by (auto simp: update_def np_get_first np_get_last split: if_splits)
  then show "\<exists>V_x ix ms. sup_q cfg avf x_next = Inr V_x \<and>
         Q_index avf (state_y x) (state_x x) a = Inr ix \<and>
         update_targets cfg r (Q avf ix) V_x = Inr ms \<and>
         V ms \<noteq> [] \<and> V ms ! 0 > last (V ms)"
    using s i t by blast
next
  assume "\<exists>V_x ix ms. sup_q cfg avf x_next = Inr V_x \<and>
         Q_index avf (state_y x) (state_x x) a = Inr ix \<and>
         update_targets cfg r (Q avf ix) V_x = Inr ms \<and>
         V ms \<noteq> [] \<and> V ms ! 0 > last (V ms)"
  then show "update cfg avf x a x_next r = Inl AssertionError"
    by (auto simp: update_def np_get_first np_get_last)
next
  fix avf'
  assume ok: "update cfg avf x a x_next r = Inr avf'"
  then obtain V_x ix ms where s: "sup_q cfg avf x_next = Inr V_x"
    and i: "Q_index avf (state_y x) (state_x x) a = Inr ix"
    and t: "update_targets cfg r (Q avf ix) V_x = Inr ms"
    unfolding update_def by (auto simp: bind_err_eq_Inr)
  from ok have r: "V ms \<noteq> [] \<and> V ms ! 0 \<le> last (V ms) \<and> avf' = avf\<lparr>Q := (Q avf)(ix := ms)\<rparr>"
    unfolding update_def by (auto simp: s i t np_get_first np_get_last split: if_splits)
  then have "Q_get avf' (state_y x) (state_x x) a = Inr ms"
    using i by (simp add: Q_get_def Q_index_def)
  then show "\<exists>ms. Q_get avf' (state_y x) (state_x x) a = Inr ms \<and>
         V ms \<noteq> [] \<and> V ms ! 0 \<le> last (V ms)"
    using r by blast
qed

theorem update_assertion_witness:
  "0 \<notin> set (tl (atoms linear_config)) \<and>
   (\<exists>avf'. update linear_config fresh_table \<lparr>state_y = 3, state_x = 0\<rparr> 0
              \<lparr>state_y = 2, state_x = 0\<rparr> (- 1) = Inr avf' \<and>
      (\<exists>ms. Q_get avf' 3 0 0 = Inr ms \<and> V ms \<noteq> [] \<and> V ms ! 0 \<le> last (V ms))) \<and>
   update linear_config skewed_table \<lparr>state_y = 3, state_x = 0\<rparr> 0
     \<lparr>state_y = 2, state_x = 0\<rparr> 1 = Inl AssertionError"
proof -
  have nz: "0 \<notin> set (tl (atoms linear_config))"
    by (simp add: linear_config_def)
  let ?x = "\<lparr>state_y = 3, state_x = 0\<rparr>" and ?x' = "\<lparr>state_y = 2, state_x = 0\<rparr>"
  obtain avf' where u: "update linear_config fresh_table ?x 0 ?x' (- 1) = Inr avf'"
    using first_update by blast
  with update_assertion [of linear_config fresh_table ?x 0 ?x' "- 1"] nz
  have "\<exists>ms. Q_get avf' (state_y ?x) (state_x ?x) 0 = Inr ms \<and> V ms \<noteq> [] \<and> V ms ! 0 \<le> last (V ms)"
    by blast
  then have ok: "\<exists>avf'. update linear_config fresh_table ?x 0 ?x' (- 1) = Inr avf' \<and>
      (\<exists>ms. Q_get avf' 3 0 0 = Inr ms \<and> V ms \<noteq> [] \<and> V ms ! 0 \<le> last (V ms))"
    using u by auto
  let ?ms = "\<lparr>V = [9/10, 2/5, 2/5, 2/5], yC = [4561/80000, 561/20000, 1683/40000, 561/10000]\<rparr>"
  have "sup_q linear_config skewed_table ?x' = Inr [0, 0, 0, 0] \<and>
        Q_index skewed_table (state_y ?x) (state_x ?x) 0 = Inr (3, 0, 0) \<and>
        update_targets linear_config 1 (Q skewed_table (3, 0, 0)) [0, 0, 0, 0] = Inr ?ms \<and>
        V ?ms \<noteq> [] \<and> V ?ms ! 0 > last (V ?ms)"
    unfolding skewed_entry skewed_cell by (simp add: skewed_sup_q skewed_index)
  with update_assertion [of linear_config skewed_table ?x 0 ?x' 1] nz
  have bad: "update linear_config skewed_table ?x 0 ?x' 1 = Inl AssertionError"
    by blast
  show ?thesis using nz ok bad by blast
qed

text \<open>
  C5. \<open>var_alpha(x, a, alpha)\<close> is to return the quantile \<open>V[i-1]\<close> stored for the pair
  \<open>(x, a)\<close>, \<open>atoms[i]\<close> being the first boundary above \<open>alpha\<close>. The code indexes the table
  with \<open>[x.x, x.y, a]\<close> where every other method uses \<open>[x.y, x.x, a]\<close>. After the first
  update of the cell of the state with \<open>y = 3, x = 0\<close>, whose \<open>V[0]\<close> is then \<open>-6/5\<close>,
  \<open>var_alpha\<close> for that state returns 0, the entry of the untouched cell \<open>[0, 3, 0]\<close>; and
  for the state with \<open>y = 0, x = 5\<close>, which has a cell of its own, it raises IndexError.
  The index \<open>i\<close> is chosen as described (lemma \<open>var_alpha_cell\<close>).
\<close>

theorem var_alpha_transposed:
  "bind_err (update linear_config fresh_table \<lparr>state_y = 3, state_x = 0\<rparr> 0
               \<lparr>state_y = 2, state_x = 0\<rparr> (- 1))
      (\<lambda>avf'. bind_err (Q_get avf' 3 0 0) (\<lambda>ms. np_get (V ms) 0)) = Inr (- 6/5) \<and>
   bind_err (update linear_config fresh_table \<lparr>state_y = 3, state_x = 0\<rparr> 0
               \<lparr>state_y = 2, state_x = 0\<rparr> (- 1))
      (\<lambda>avf'. var_alpha linear_config avf' \<lparr>state_y = 3, state_x = 0\<rparr> 0 (1/10)) = Inr 0 \<and>
   Q_get fresh_table 0 5 0 = Inr (MarkovState_init linear_config) \<and>
   var_alpha linear_config fresh_table \<lparr>state_y = 0, state_x = 5\<rparr> 0 (1/10) = Inl IndexError"
proof -
  let ?ms = "\<lparr>V = [- 6/5, - 2/5, - 2/15, 0],
        yC = [- 8707/40000, - 6317/20000, - 13569/40000, - 3439/10000]\<rparr>"
  let ?avf' = "fresh_table\<lparr>Q := (Q fresh_table)((3, 0, 0) := ?ms)\<rparr>"
  have own: "Q_get ?avf' 3 0 0 = Inr ?ms"
    by (simp add: Q_get_def Q_index_def np_index_def fresh_table_def
        ActionValueFunction_init_def grid_world_def)
  have other: "Q_get ?avf' 0 3 0 = Inr (MarkovState_init linear_config)"
    by (simp add: Q_get_def Q_index_def np_index_def fresh_table_def
        ActionValueFunction_init_def grid_world_def)
  have zero: "np_get (V (MarkovState_init linear_config)) (int 1 - 1) = Inr 0"
    by (simp add: MarkovState_init_def linear_config_def np_get_first)
  have read: "var_alpha linear_config ?avf' \<lparr>state_y = 3, state_x = 0\<rparr> 0 (1/10) = Inr 0"
    unfolding var_alpha_def Let_def var_alpha_index
    by (simp only: State.simps other bind_err_Inr zero)
  have stored: "bind_err (Q_get ?avf' 3 0 0) (\<lambda>ms. np_get (V ms) 0) = Inr (- 6/5)"
    unfolding own by (simp add: np_get_first)
  have cell: "Q_get fresh_table 0 5 0 = Inr (MarkovState_init linear_config)"
    by (simp add: Q_get_def Q_index_def np_index_def fresh_table_def
        ActionValueFunction_init_def grid_world_def)
  have out: "var_alpha linear_config fresh_table \<lparr>state_y = 0, state_x = 5\<rparr> 0 (1/10)
             = Inl IndexError"
    by (simp add: var_alpha_def Q_get_def Q_index_def np_index_def fresh_table_def
        ActionValueFunction_init_def grid_world_def)
  show ?thesis
    unfolding first_update bind_err_Inr using read stored cell out by simp
qed

text \<open>
  C3. For a state \<open>x\<close> of the grid, \<open>sup_q(x)\<close> is \<open>yc_to_var(atoms, m)\<close>, where \<open>m[i]\<close> is the
  maximum over all actions \<open>a\<close> of the \<open>yC[i]\<close> stored for \<open>(x, a)\<close>; and over a strictly
  increasing atom grid the CVaR envelope of the result, the cumulative sum of \<open>mass[i]\<close>
  times the returned quantiles, is exactly \<open>m\<close>.
\<close>

theorem sup_q_envelope:
  assumes "\<forall>a \<in> set (ACTIONS (world avf)). Q_get avf (state_y x) (state_x x) a = Inr (cell a)"
    and "ACTIONS (world avf) \<noteq> []"
    and "\<forall>a \<in> set (ACTIONS (world avf)). length (yC (cell a)) = NB_ATOMS cfg"
    and "length (atoms cfg) = NB_ATOMS cfg + 1"
    and "sorted_wrt (<) (atoms cfg)"
  shows "sup_q cfg avf x
           = Inr (yc_to_var (atoms cfg)
               (map (\<lambda>i. Max ((\<lambda>a. yC (cell a) ! i) ` set (ACTIONS (world avf)))) [0..<NB_ATOMS cfg])) \<and>
         (\<exists>vs. sup_q cfg avf x = Inr vs \<and>
            cvar_envelope (atoms cfg) vs
              = map (\<lambda>i. Max ((\<lambda>a. yC (cell a) ! i) ` set (ACTIONS (world avf)))) [0..<NB_ATOMS cfg])"
proof -
  let ?m = "map (\<lambda>i. Max ((\<lambda>a. yC (cell a) ! i) ` set (ACTIONS (world avf)))) [0..<NB_ATOMS cfg]"
  have "\<forall>i \<in> set [0..<NB_ATOMS cfg].
          bind_err (sequence_err (map (\<lambda>a. bind_err (Q_get avf (state_y x) (state_x x) a)
              (\<lambda>ms. np_get (yC ms) (int i))) (ACTIONS (world avf)))) np_max
          = Inr (Max ((\<lambda>a. yC (cell a) ! i) ` set (ACTIONS (world avf))))"
  proof
    fix i assume "i \<in> set [0..<NB_ATOMS cfg]"
    then have "\<forall>a \<in> set (ACTIONS (world avf)). i < length (yC (cell a))"
      using assms(3) by simp
    with assms(1,2) show "bind_err (sequence_err (map (\<lambda>a. bind_err (Q_get avf (state_y x) (state_x x) a)
              (\<lambda>ms. np_get (yC ms) (int i))) (ACTIONS (world avf)))) np_max
          = Inr (Max ((\<lambda>a. yC (cell a) ! i) ` set (ACTIONS (world avf))))"
      by (rule sup_q_column)
  qed
  then have "sequence_err (map (\<lambda>i.
          bind_err (sequence_err (map (\<lambda>a. bind_err (Q_get avf (state_y x) (state_x x) a)
              (\<lambda>ms. np_get (yC ms) (int i))) (ACTIONS (world avf)))) np_max) [0..<NB_ATOMS cfg])
        = Inr ?m"
    by (rule sequence_err_map_Inr)
  then have s: "sup_q cfg avf x = Inr (yc_to_var (atoms cfg) ?m)"
    by (simp add: sup_q_def)
  have "length (atoms cfg) = length ?m + 1" using assms(4) by simp
  with assms(5) have "cvar_envelope (atoms cfg) (yc_to_var (atoms cfg) ?m) = ?m"
    by (rule envelope_round_trip)
  with s show ?thesis by simp
qed


theorem sup_q_envelope_witness:
  "ACTIONS (world mixed_table) \<noteq> [] \<and>
   length (atoms linear_config) = NB_ATOMS linear_config + 1 \<and>
   sorted_wrt (<) (atoms linear_config) \<and>
   sup_q linear_config mixed_table \<lparr>state_y = 2, state_x = 0\<rparr> = Inr [2, 1, 5, 2] \<and>
   cvar_envelope (atoms linear_config) [2, 1, 5, 2] = [1/2, 3/4, 2, 5/2]"
proof -
  let ?x = "\<lparr>state_y = 2, state_x = 0\<rparr>"
  let ?cell = "\<lambda>a. Q mixed_table (2, 0, nat a)"
  have w: "world mixed_table = grid_world"
    by (simp add: mixed_table_def fresh_table_def ActionValueFunction_init_def)
  have h1: "\<forall>a \<in> set (ACTIONS (world mixed_table)).
              Q_get mixed_table (state_y ?x) (state_x ?x) a = Inr (?cell a)"
    by (simp add: w grid_world_def Q_get_def Q_index_def np_index_def)
  have h2: "ACTIONS (world mixed_table) \<noteq> []"
    by (simp add: w grid_world_def)
  have h3: "\<forall>a \<in> set (ACTIONS (world mixed_table)). length (yC (?cell a)) = NB_ATOMS linear_config"
    by (simp add: w grid_world_def mixed_table_def fresh_table_def ActionValueFunction_init_def
        MarkovState_init_def sample_state_def linear_config_def)
  have h4: "length (atoms linear_config) = NB_ATOMS linear_config + 1"
    by (simp add: linear_config_def)
  have h5: "sorted_wrt (<) (atoms linear_config)"
    by (simp add: linear_config_def)
  have mx: "map (\<lambda>i. Max ((\<lambda>a. yC (?cell a) ! i) ` set (ACTIONS (world mixed_table))))
              [0..<NB_ATOMS linear_config] = [1/2, 3/4, 2, 5/2]"
    by (simp add: w grid_world_def mixed_table_def fresh_table_def ActionValueFunction_init_def
        MarkovState_init_def sample_state_def linear_config_def upt_rec numeral_eq_Suc)
  have v: "yc_to_var (atoms linear_config) [1/2, 3/4, 2, 5/2] = [2, 1, 5, 2]"
    by (simp add: yc_to_var_def np_diff_def linear_config_def)
  from sup_q_envelope [OF h1 h2 h3 h4 h5]
  have "sup_q linear_config mixed_table ?x = Inr [2, 1, 5, 2] \<and>
        cvar_envelope (atoms linear_config) [2, 1, 5, 2] = [1/2, 3/4, 2, 5/2]"
    unfolding mx v by auto
  then show ?thesis using h2 h4 h5 by simp
qed

text \<open>
  C6. In every episode of \<open>q_learning\<close> the risk budget \<open>s\<close> starts as
  \<open>var_alpha(x0, a0, alpha)\<close> for the initial state \<open>x0\<close> and the epsilon-greedy action \<open>a0\<close>
  chosen through \<open>next_action_alpha\<close>; every pass of the inner loop samples a transition
  with reward \<open>r\<close>, updates the table with \<open>update(x, a, x_, r)\<close>, in which \<open>s\<close> does not
  occur, and continues with \<open>(s - r)/gamma\<close>; the loop hands \<open>s\<close> on unchanged otherwise,
  and the next episode starts from a new \<open>var_alpha\<close> value. The discount is not 0.
\<close>

theorem risk_budget_recurrence:
  assumes "gamma cfg \<noteq> 0"
  shows "(episode_init cfg env avf alpha g = Inr (x0, s0, g1) \<longrightarrow>
      x0 = initial_state (world avf) \<and>
      (\<exists>greedy a0. next_action_alpha cfg avf x0 alpha = Inr greedy \<and>
         eps_greedy env (int greedy) (eps cfg) (ACTIONS (world avf)) g = Inr (a0, g1) \<and>
         var_alpha cfg avf x0 a0 alpha = Inr s0)) \<and>
   (episode_body cfg env avf x s g = Inr (avf', x', s', g') \<longrightarrow>
      (\<exists>greedy a g1 r. next_action_s cfg avf x s = Inr greedy \<and>
         eps_greedy env (int greedy) (eps cfg) (ACTIONS (world avf)) g = Inr (a, g1) \<and>
         sample_transition env x a g1 = ((x', r), g') \<and>
         update cfg avf x a x' r = Inr avf' \<and>
         s' = (s - r) / gamma cfg)) \<and>
   (x \<notin> set (goal_states (world avf)) \<and> real i < max_episode_length \<and>
    episode_body cfg env avf x s g = Inr (avf', x', s', g') \<longrightarrow>
      episode_loop cfg env max_episode_length avf x s i g
        = episode_loop cfg env max_episode_length avf' x' s' (Suc i) g') \<and>
   (\<not> (x \<notin> set (goal_states (world avf)) \<and> real i < max_episode_length) \<longrightarrow>
      episode_loop cfg env max_episode_length avf x s i g = Inr (avf, x, s, i, g)) \<and>
   (real e < max_episodes \<and> episode_init cfg env avf alpha g = Inr (x0, s0, g1) \<longrightarrow>
      q_learning_loop cfg env alpha max_episodes max_episode_length avf e g
        = (case episode_loop cfg env max_episode_length avf x0 s0 0 g1 of
             Inl err \<Rightarrow> Inl err
           | Inr (avf1, x1, s1, i1, g2) \<Rightarrow>
               q_learning_loop cfg env alpha max_episodes max_episode_length avf1 (Suc e) g2))"
proof (intro conjI impI)
  assume init: "episode_init cfg env avf alpha g = Inr (x0, s0, g1)"
  then obtain greedy where na: "next_action_alpha cfg avf (initial_state (world avf)) alpha = Inr greedy"
    unfolding episode_init_def Let_def by (auto simp: bind_err_eq_Inr)
  from init na obtain a0 g0 where eg: "eps_greedy env (int greedy) (eps cfg) (ACTIONS (world avf)) g = Inr (a0, g0)"
    unfolding episode_init_def Let_def by (auto simp: bind_err_eq_Inr)
  from init na eg have "var_alpha cfg avf (initial_state (world avf)) a0 alpha = Inr s0 \<and>
      x0 = initial_state (world avf) \<and> g0 = g1"
    unfolding episode_init_def Let_def by (auto simp: bind_err_eq_Inr)
  then show "x0 = initial_state (world avf)"
    and "\<exists>greedy a0. next_action_alpha cfg avf x0 alpha = Inr greedy \<and>
         eps_greedy env (int greedy) (eps cfg) (ACTIONS (world avf)) g = Inr (a0, g1) \<and>
         var_alpha cfg avf x0 a0 alpha = Inr s0"
    using na eg by auto
next
  assume body: "episode_body cfg env avf x s g = Inr (avf', x', s', g')"
  then obtain greedy where na: "next_action_s cfg avf x s = Inr greedy"
    unfolding episode_body_def by (auto simp: bind_err_eq_Inr)
  from body na obtain a g1 where eg: "eps_greedy env (int greedy) (eps cfg) (ACTIONS (world avf)) g = Inr (a, g1)"
    unfolding episode_body_def by (auto simp: bind_err_eq_Inr)
  obtain xn r g2 where st: "sample_transition env x a g1 = ((xn, r), g2)"
    by (metis surj_pair)
  from body na eg st have "update cfg avf x a xn r = Inr avf' \<and> x' = xn \<and> s' = (s - r) / gamma cfg \<and> g' = g2"
    unfolding episode_body_def by (auto simp: bind_err_eq_Inr)
  then show "\<exists>greedy a g1 r. next_action_s cfg avf x s = Inr greedy \<and>
         eps_greedy env (int greedy) (eps cfg) (ACTIONS (world avf)) g = Inr (a, g1) \<and>
         sample_transition env x a g1 = ((x', r), g') \<and>
         update cfg avf x a x' r = Inr avf' \<and>
         s' = (s - r) / gamma cfg"
    using na eg st by auto
next
  assume "x \<notin> set (goal_states (world avf)) \<and> real i < max_episode_length \<and>
    episode_body cfg env avf x s g = Inr (avf', x', s', g')"
  then show "episode_loop cfg env max_episode_length avf x s i g
        = episode_loop cfg env max_episode_length avf' x' s' (Suc i) g'"
    by (subst episode_loop.simps) simp
next
  assume "\<not> (x \<notin> set (goal_states (world avf)) \<and> real i < max_episode_length)"
  then show "episode_loop cfg env max_episode_length avf x s i g = Inr (avf, x, s, i, g)"
    by (subst episode_loop.simps) auto
next
  assume "real e < max_episodes \<and> episode_init cfg env avf alpha g = Inr (x0, s0, g1)"
  then show "q_learning_loop cfg env alpha max_episodes max_episode_length avf e g
        = (case episode_loop cfg env max_episode_length avf x0 s0 0 g1 of
             Inl err \<Rightarrow> Inl err
           | Inr (avf1, x1, s1, i1, g2) \<Rightarrow>
               q_learning_loop cfg env alpha max_episodes max_episode_length avf1 (Suc e) g2)"
    by (subst q_learning_loop.simps) simp
qed


theorem risk_budget_recurrence_witness:
  "gamma linear_config \<noteq> 0 \<and>
   episode_init linear_config calm_env fresh_table (1/10) ()
     = Inr (\<lparr>state_y = 3, state_x = 0\<rparr>, 0, ()) \<and>
   (\<exists>greedy a0. next_action_alpha linear_config fresh_table \<lparr>state_y = 3, state_x = 0\<rparr> (1/10)
        = Inr greedy \<and>
      eps_greedy calm_env (int greedy) (eps linear_config) (ACTIONS (world fresh_table)) ()
        = Inr (a0, ()) \<and>
      var_alpha linear_config fresh_table \<lparr>state_y = 3, state_x = 0\<rparr> a0 (1/10) = Inr 0) \<and>
   (\<exists>avf' a r. episode_body linear_config calm_env fresh_table \<lparr>state_y = 3, state_x = 0\<rparr> 0 ()
        = Inr (avf', \<lparr>state_y = 2, state_x = 0\<rparr>, 20/19, ()) \<and>
      update linear_config fresh_table \<lparr>state_y = 3, state_x = 0\<rparr> a
        \<lparr>state_y = 2, state_x = 0\<rparr> r = Inr avf' \<and>
      (20/19 :: real) = (0 - r) / gamma linear_config)"
proof -
  let ?x = "\<lparr>state_y = 3, state_x = 0\<rparr>" and ?x' = "\<lparr>state_y = 2, state_x = 0\<rparr>"
  let ?avf' = "fresh_table\<lparr>Q := (Q fresh_table)((3, 0, 0) :=
            \<lparr>V = [- 6/5, - 2/5, - 2/15, 0],
             yC = [- 8707/40000, - 6317/20000, - 13569/40000, - 3439/10000]\<rparr>)\<rparr>"
  have nz: "gamma linear_config \<noteq> 0"
    by (simp add: linear_config_def)
  note r = risk_budget_recurrence [of linear_config calm_env fresh_table "1/10" "()" ?x 0 "()"
      ?x 0 ?avf' ?x' "20/19" "()", OF nz]
  have a: "\<exists>greedy a0. next_action_alpha linear_config fresh_table ?x (1/10) = Inr greedy \<and>
      eps_greedy calm_env (int greedy) (eps linear_config) (ACTIONS (world fresh_table)) ()
        = Inr (a0, ()) \<and>
      var_alpha linear_config fresh_table ?x a0 (1/10) = Inr 0"
    using r calm_episode_init by blast
  have "\<exists>greedy a g1 r. next_action_s linear_config fresh_table ?x 0 = Inr greedy \<and>
         eps_greedy calm_env (int greedy) (eps linear_config) (ACTIONS (world fresh_table)) ()
           = Inr (a, g1) \<and>
         sample_transition calm_env ?x a g1 = ((?x', r), ()) \<and>
         update linear_config fresh_table ?x a ?x' r = Inr ?avf' \<and>
         (20/19 :: real) = (0 - r) / gamma linear_config"
    using r calm_episode_body by blast
  then have b: "\<exists>avf' a r. episode_body linear_config calm_env fresh_table ?x 0 ()
        = Inr (avf', ?x', 20/19, ()) \<and>
      update linear_config fresh_table ?x a ?x' r = Inr avf' \<and>
      (20/19 :: real) = (0 - r) / gamma linear_config"
    using calm_episode_body by blast
  show ?thesis using nz calm_episode_init a b by blast
qed

end
